theory Spec2Isabelle
  imports Complex_Main "HOL-Library.Word"
begin

section \<open>Conventions of the embedding\<close>

text \<open>
  The tensors of learnMSA hold \<open>float32\<close> values. They are embedded as lists of
  real numbers: a vector over the \<open>q\<close> states is a \<open>real list\<close>, a \<open>q \<times> q\<close>
  matrix a list of rows. Rounding, overflow to infinity and NaN are not part of the
  embedding; every statement below is about the exact arithmetic the code denotes.

  Every operation of \<open>Viterbi.py\<close> acts independently on each pair (model, batch
  element); the leading two axes \<open>(num_models, b)\<close> are therefore dropped and one
  such pair is embedded.
\<close>

section \<open>Viterbi.py: safe_log\<close>

text \<open>\<open>np.finfo(np.float32).tiny\<close>, the smallest positive normal \<open>float32\<close>.\<close>

definition epsilon :: real where
  "epsilon = 1 / 2 ^ 126"

text \<open>
  \<^verbatim>\<open>
  def safe_log(x, log_zero_val=-1e3):
      epsilon = tf.constant(np.finfo(np.float32).tiny)
      log_x = tf.math.log(tf.maximum(x, epsilon))
      zero_mask = tf.cast(tf.equal(x, 0), dtype=log_x.dtype)
      log_x = (1-zero_mask) * log_x + zero_mask * log_zero_val
      return log_x
  \<close>
  \<open>safe_log_with\<close> is the function with both arguments, \<open>safe_log\<close> the call
  with the default \<open>log_zero_val\<close>, the only form the callers use.
\<close>

definition safe_log_with :: "real \<Rightarrow> real \<Rightarrow> real" where
  "safe_log_with x log_zero_val =
     (let log_x = ln (max x epsilon);
          zero_mask = (if x = 0 then 1 else 0)
      in (1 - zero_mask) * log_x + zero_mask * log_zero_val)"

definition safe_log :: "real \<Rightarrow> real" where
  "safe_log x = safe_log_with x (- 1000)"

section \<open>The HMM cell\<close>

text \<open>
  \<open>MsaHmmCell\<close> is not among the sources. The attributes that \<open>Viterbi.py\<close>
  reads from it are the fields of this record, for one model: \<open>dim\<close> (the size of the
  input alphabet), \<open>init_dist\<close> (a vector over the states), \<open>log_A_dense\<close> and
  \<open>log_A_dense_t\<close> (the matrix of transition scores, row = source state, and what the
  cell keeps as its transpose), and the method \<open>emission_probs\<close>, which maps the
  \<open>L\<close> input vectors (and the optional \<open>end_hints\<close>) to \<open>L\<close> vectors over
  the states.
\<close>

type_synonym vec = "real list"
type_synonym mat = "real list list"

record hmm_cell =
  dim :: nat
  init_dist :: vec
  log_A_dense :: mat
  log_A_dense_t :: mat
  emission_probs :: "mat \<Rightarrow> mat option \<Rightarrow> mat"

text \<open>
  \<open>non_homogeneous_mask_func(i, seq_lens, hmm_cell)\<close>: the mask of position \<open>i\<close>,
  a matrix over (source state, target state).
\<close>

type_synonym mask_func = "nat \<Rightarrow> nat \<Rightarrow> hmm_cell \<Rightarrow> mat"

section \<open>Tensor primitives\<close>

text \<open>\<open>tf.transpose\<close> of the last two axes.\<close>

definition transpose_mat :: "mat \<Rightarrow> mat" where
  "transpose_mat m =
     (case m of [] \<Rightarrow> [] | r # _ \<Rightarrow> map (\<lambda>j. map (\<lambda>row. row ! j) m) [0..<length r])"

text \<open>\<open>tf.reduce_max(a, axis=-2)\<close>: the maximum of every column.\<close>

definition reduce_max_rows :: "mat \<Rightarrow> vec" where
  "reduce_max_rows a = map (\<lambda>col. Max (set col)) (transpose_mat a)"

text \<open>
  \<open>tf.math.argmax(x, axis=-1)\<close>: the index of the maximum, the smallest one when
  the maximum occurs more than once.
\<close>

definition argmax :: "vec \<Rightarrow> nat" where
  "argmax xs = length (takeWhile (\<lambda>x. x \<noteq> Max (set xs)) xs)"

text \<open>\<open>tf.one_hot(i, depth)\<close>.\<close>

definition one_hot :: "nat \<Rightarrow> nat \<Rightarrow> vec" where
  "one_hot i depth = map (\<lambda>j. if j = i then 1 else 0) [0..<depth]"

text \<open>Element-wise sum of two vectors and of two matrices of the same shape.\<close>

definition vec_add :: "vec \<Rightarrow> vec \<Rightarrow> vec" where
  "vec_add xs ys = map2 (+) xs ys"

definition mat_add :: "mat \<Rightarrow> mat \<Rightarrow> mat" where
  "mat_add a b = map2 vec_add a b"

section \<open>Viterbi.py: the dynamic program\<close>

text \<open>
  \<^verbatim>\<open>
  def viterbi_step(gamma_prev, emission_probs_i, hmm_cell, non_homogeneous_mask=None):
      a = tf.expand_dims(hmm_cell.log_A_dense, 1) + tf.expand_dims(gamma_prev, -1)
      if non_homogeneous_mask is not None:
          a += safe_log(non_homogeneous_mask)
      a = tf.reduce_max(a, axis=-2)
      b = safe_log(emission_probs_i)
      gamma_next = a + b
      return gamma_next
  \<close>
  \<open>expand_dims(gamma_prev, -1)\<close> adds \<open>gamma_prev[q']\<close> to every entry of row \<open>q'\<close>.
\<close>

definition viterbi_step :: "vec \<Rightarrow> vec \<Rightarrow> hmm_cell \<Rightarrow> mat option \<Rightarrow> vec" where
  "viterbi_step gamma_prev emission_probs_i cell non_homogeneous_mask =
     (let a = map2 (\<lambda>row g. map (\<lambda>x. x + g) row) (log_A_dense cell) gamma_prev;
          a = (case non_homogeneous_mask of
                 None \<Rightarrow> a
               | Some m \<Rightarrow> mat_add a (map (map safe_log) m));
          a = reduce_max_rows a;
          b = map safe_log emission_probs_i
      in vec_add a b)"

text \<open>
  \<open>seq_lens = tf.reduce_sum(tf.cast(sequences[..., -1]==0, tf.int32), axis=-1)\<close>:
  the number of positions whose last input component is zero.
\<close>

definition seq_lens_of :: "mat \<Rightarrow> nat" where
  "seq_lens_of sequences = length (filter (\<lambda>x. last x = 0) sequences)"

definition mask_at :: "mask_func option \<Rightarrow> nat \<Rightarrow> nat \<Rightarrow> hmm_cell \<Rightarrow> mat option" where
  "mask_at mf i seq_lens cell = map_option (\<lambda>f. f i seq_lens cell) mf"

text \<open>
  The loop \<open>for i in tf.range(1, L)\<close> of \<open>viterbi_dyn_prog\<close>: \<open>dyn_loop\<close>
  runs \<open>n\<close> iterations from index \<open>i\<close> on and returns the values written to the
  \<open>TensorArray\<close> at the indices \<open>i, ..., i + n - 1\<close>.
\<close>

fun dyn_loop :: "hmm_cell \<Rightarrow> mat \<Rightarrow> mask_func option \<Rightarrow> nat \<Rightarrow> nat \<Rightarrow> nat \<Rightarrow> vec \<Rightarrow> mat" where
  "dyn_loop cell em mf seq_lens i 0 gamma_val = []"
| "dyn_loop cell em mf seq_lens i (Suc n) gamma_val =
     (let gamma_val' = viterbi_step gamma_val (em ! i) cell (mask_at mf i seq_lens cell)
      in gamma_val' # dyn_loop cell em mf seq_lens (Suc i) n gamma_val')"

text \<open>
  \<^verbatim>\<open>
  def viterbi_dyn_prog(sequences, hmm_cell, end_hints=None, non_homogeneous_mask_func=None):
      init = tf.transpose(hmm_cell.init_dist, (1,0,2))
      emission_probs = hmm_cell.emission_probs(sequences, end_hints=end_hints, training=False)
      b0 = emission_probs[:,:,0]
      gamma_val = safe_log(init) + safe_log(b0)
      L = tf.shape(sequences)[-2]
      seq_lens = tf.reduce_sum(tf.cast(sequences[..., -1]==0, tf.int32), axis=-1)
      gamma = tf.TensorArray(hmm_cell.dtype, size=L)
      gamma = gamma.write(0, gamma_val)
      for i in tf.range(1, L):
          gamma_val = viterbi_step(gamma_val, emission_probs[:,:,i], hmm_cell,
                         non_homogeneous_mask_func(i, seq_lens, hmm_cell) if ... else None)
          gamma = gamma.write(i, gamma_val)
      gamma = tf.transpose(gamma.stack(), [1,2,0,3])
      return gamma
  \<close>
  With no position (\<open>L = 0\<close>) the slice \<open>emission_probs[:,:,0]\<close> is out of
  bounds and the call raises: the result is \<open>None\<close>.
\<close>

definition viterbi_dyn_prog ::
  "mat \<Rightarrow> hmm_cell \<Rightarrow> mat option \<Rightarrow> mask_func option \<Rightarrow> mat option" where
  "viterbi_dyn_prog sequences cell end_hints mf =
     (let init = init_dist cell;
          em = emission_probs cell sequences end_hints;
          L = length sequences
      in if L = 0 then None
         else
           let b0 = em ! 0;
               gamma_val = vec_add (map safe_log init) (map safe_log b0);
               seq_lens = seq_lens_of sequences
           in Some (gamma_val # dyn_loop cell em mf seq_lens 1 (L - 1) gamma_val))"

section \<open>Viterbi.py: backtracking\<close>

text \<open>
  \<^verbatim>\<open>
  def viterbi_backtracking_step(q, gamma_state, hmm_cell, non_homogeneous_mask=None):
      if non_homogeneous_mask is None:
          A_q = tf.gather_nd(hmm_cell.log_A_dense_t, q, batch_dims=1)
      else:
          A_q = tf.gather_nd(hmm_cell.log_A_dense_t[:,tf.newaxis]
                  + safe_log(tf.transpose(non_homogeneous_mask, [0,1,3,2])), q, batch_dims=2)
      q = tf.math.argmax(A_q + gamma_state, axis=-1)
      q = tf.expand_dims(q, -1)
      return q
  \<close>
\<close>

definition viterbi_backtracking_step :: "nat \<Rightarrow> vec \<Rightarrow> hmm_cell \<Rightarrow> mat option \<Rightarrow> nat" where
  "viterbi_backtracking_step q gamma_state cell non_homogeneous_mask =
     (let A_q = (case non_homogeneous_mask of
                   None \<Rightarrow> log_A_dense_t cell ! q
                 | Some m \<Rightarrow>
                     mat_add (log_A_dense_t cell) (map (map safe_log) (transpose_mat m)) ! q)
      in argmax (vec_add A_q gamma_state))"

text \<open>
  The loop \<open>for i in tf.range(L-2, -1, -1)\<close> of \<open>viterbi_backtracking\<close>:
  \<open>bt_loop\<close> runs the iterations \<open>i = n - 1, ..., 0\<close>; \<open>acc\<close> holds the states
  already written, those of the positions \<open>n, ..., L - 1\<close>.
\<close>

fun bt_loop :: "hmm_cell \<Rightarrow> mat \<Rightarrow> nat \<Rightarrow> mask_func option \<Rightarrow> nat \<Rightarrow> nat \<Rightarrow> nat list \<Rightarrow> nat list" where
  "bt_loop cell gamma seq_lens mf 0 q acc = acc"
| "bt_loop cell gamma seq_lens mf (Suc i) q acc =
     (let q' = viterbi_backtracking_step q (gamma ! i) cell (mask_at mf (i + 1) seq_lens cell)
      in bt_loop cell gamma seq_lens mf i q' (q' # acc))"

text \<open>
  \<^verbatim>\<open>
  def viterbi_backtracking(hmm_cell, gamma, seq_lens, non_homogeneous_mask_func=None):
      q = tf.math.argmax(gamma[:,:,-1], axis=-1)
      q = tf.expand_dims(q, -1)
      L = tf.shape(gamma)[2]
      state_seqs_max_lik = tf.TensorArray(q.dtype, size=L)
      state_seqs_max_lik = state_seqs_max_lik.write(L-1, q)
      for i in tf.range(L-2, -1, -1):
          q = viterbi_backtracking_step(q, gamma[:,:,i], hmm_cell,
                non_homogeneous_mask_func(i+1, seq_lens, hmm_cell) if ... else None)
          state_seqs_max_lik = state_seqs_max_lik.write(i, q)
      state_seqs_max_lik = tf.transpose(state_seqs_max_lik.stack(), [1,2,0,3])
      state_seqs_max_lik = tf.cast(state_seqs_max_lik, dtype=tf.int16)
      state_seqs_max_lik = state_seqs_max_lik[:,:,:,0]
      return state_seqs_max_lik
  \<close>
  \<open>decoded_states\<close> is the content of the \<open>TensorArray\<close> (64-bit indices) before
  the cast; the cast to \<open>int16\<close> keeps the low 16 bits. An empty \<open>gamma\<close> has no
  last position to read: the result is \<open>None\<close>.
\<close>

definition decoded_states :: "hmm_cell \<Rightarrow> mat \<Rightarrow> nat \<Rightarrow> mask_func option \<Rightarrow> nat list" where
  "decoded_states cell gamma seq_lens mf =
     (let q = argmax (last gamma);
          L = length gamma
      in bt_loop cell gamma seq_lens mf (L - 1) q [q])"

definition viterbi_backtracking ::
  "hmm_cell \<Rightarrow> mat \<Rightarrow> nat \<Rightarrow> mask_func option \<Rightarrow> 16 word list option" where
  "viterbi_backtracking cell gamma seq_lens mf =
     (if gamma = [] then None
      else Some (map (\<lambda>q. word_of_nat q) (decoded_states cell gamma seq_lens mf)))"

section \<open>Viterbi.py: viterbi\<close>

text \<open>
  The input of \<open>viterbi\<close> has shape \<open>(num_models, b, L)\<close> (symbol indices) or
  \<open>(num_models, b, L, s)\<close> (one vector per position).
\<close>

datatype sequences_input = Indices "nat list" | Vectors mat

text \<open>
  \<^verbatim>\<open>
  def viterbi(sequences, hmm_cell, end_hints=None, non_homogeneous_mask_func=None):
      if len(sequences.shape) == 3:
          sequences = tf.one_hot(sequences, hmm_cell.dim, dtype=hmm_cell.dtype)
      else:
          sequences = tf.cast(sequences, hmm_cell.dtype)
      gamma = viterbi_dyn_prog(sequences, hmm_cell, end_hints=end_hints,
                               non_homogeneous_mask_func=non_homogeneous_mask_func)
      seq_lens = tf.reduce_sum(tf.cast(sequences[..., -1]==0, tf.int32), axis=-1)
      return viterbi_backtracking(hmm_cell, gamma, seq_lens,
                                  non_homogeneous_mask_func=non_homogeneous_mask_func)
  \<close>
\<close>

fun to_vectors :: "sequences_input \<Rightarrow> hmm_cell \<Rightarrow> mat" where
  "to_vectors (Indices ids) cell = map (\<lambda>i. one_hot i (dim cell)) ids"
| "to_vectors (Vectors m) cell = m"

definition viterbi ::
  "sequences_input \<Rightarrow> hmm_cell \<Rightarrow> mat option \<Rightarrow> mask_func option \<Rightarrow> 16 word list option" where
  "viterbi inp cell end_hints mf =
     (let sequences = to_vectors inp cell
      in case viterbi_dyn_prog sequences cell end_hints mf of
           None \<Rightarrow> None
         | Some gamma \<Rightarrow>
             let seq_lens = seq_lens_of sequences
             in viterbi_backtracking cell gamma seq_lens mf)"

section \<open>Emitter.py\<close>

text \<open>\<open>tf.nn.softmax\<close> along the last axis.\<close>

definition softmax :: "vec \<Rightarrow> vec" where
  "softmax xs = map (\<lambda>x. exp x / sum_list (map exp xs)) xs"

text \<open>
  \<^verbatim>\<open>
  def make_default_emission_matrix(em, ins, length):
      s = em.shape[-1]
      emissions = tf.concat([tf.expand_dims(ins, 0), em,
                             tf.stack([ins]*(length+1))] , axis=0)
      emissions = tf.nn.softmax(emissions)
      emissions = tf.concat([emissions, tf.zeros_like(emissions[:,:1])], axis=-1)
      end_state_emission = tf.one_hot([s], s+1, dtype=em.dtype)
      emissions = tf.concat([emissions, end_state_emission], axis=0)
      return emissions
  \<close>
  The kernel \<open>em\<close> is a tensor of shape \<open>(length, s)\<close>; it is embedded as the pair
  of \<open>s\<close> and the list of its rows, since a list of no rows has lost \<open>s\<close>.
  \<open>emissions[:,:1]\<close> is the first column, empty when \<open>s = 0\<close>.
\<close>

definition make_default_emission_matrix :: "nat \<times> mat \<Rightarrow> vec \<Rightarrow> nat \<Rightarrow> mat" where
  "make_default_emission_matrix em ins len =
     (let s = fst em;
          emissions = [ins] @ snd em @ replicate (len + 1) ins;
          emissions = map softmax emissions;
          emissions = map (\<lambda>row. row @ map (\<lambda>_. 0) (take 1 row)) emissions;
          end_state_emission = [one_hot s (s + 1)]
      in emissions @ end_state_emission)"

text \<open>
  The attributes of \<open>ProfileHMMEmitter\<close> that \<open>make_B\<close> reads: one emission
  kernel, one insertion kernel and one length per model, and \<open>max_num_states\<close>.
\<close>

record emitter =
  emission_kernel :: "(nat \<times> mat) list"
  insertion_kernel :: "vec list"
  lengths :: "nat list"
  max_num_states :: nat

text \<open>\<open>tf.pad(m, [[0, padding], [0, 0]])\<close>: \<open>padding\<close> rows of zeros below \<open>m\<close>.\<close>

definition pad_rows :: "mat \<Rightarrow> nat \<Rightarrow> mat" where
  "pad_rows m padding = m @ replicate padding (replicate (length (hd m)) 0)"

text \<open>
  \<^verbatim>\<open>
  def make_B(self):
      emission_matrices = []
      for em, ins, length in zip(self.emission_kernel, self.insertion_kernel, self.length):
          em_mat = make_default_emission_matrix(em, ins, length)
          padding = self.max_num_states - em_mat.shape[0]
          em_mat_pad = tf.pad(em_mat, [[0, padding], [0,0]])
          emission_matrices.append(em_mat_pad)
      B = tf.stack(emission_matrices, axis=0)
      return B
  \<close>
  \<open>tf.pad\<close> rejects a negative padding: the result is \<open>None\<close> when a matrix has
  more rows than \<open>max_num_states\<close>.
\<close>

definition make_B :: "emitter \<Rightarrow> mat list option" where
  "make_B e =
     those (map (\<lambda>(em, ins, len).
               let em_mat = make_default_emission_matrix em ins len;
                   n = length em_mat
               in if max_num_states e < n then None
                  else Some (pad_rows em_mat (max_num_states e - n)))
             (zip (emission_kernel e) (zip (insertion_kernel e) (lengths e))))"

section \<open>MsaHmmLayer.py: the chunking of the input\<close>

text \<open>
  \<open>forward_recursion\<close>, \<open>backward_recursion\<close> and \<open>state_posterior_log_probs\<close>
  begin alike:
  \<^verbatim>\<open>
  num_model, b, seq_len, s = tf.unstack(tf.shape(inputs))
  q = self.cell.max_num_states
  emission_probs = self.cell.emission_probs(inputs, end_hints=end_hints, training=training)
  chunk_size = seq_len // self.parallel_factor
  emission_probs = tf.reshape(emission_probs,
                              (num_model*b*self.parallel_factor, chunk_size, q))
  \<close>
  and hand the reshaped tensor to the cells, which are not among the sources. The
  embedding follows the shapes. \<open>tf.reshape\<close> raises \<open>InvalidArgumentError\<close> unless
  the new shape has as many elements as the tensor; so does the integer division by
  zero.
\<close>

datatype tf_error = InvalidArgumentError

definition reshape :: "nat list \<Rightarrow> nat list \<Rightarrow> tf_error + nat list" where
  "reshape shape new_shape =
     (if prod_list shape = prod_list new_shape then Inr new_shape else Inl InvalidArgumentError)"

text \<open>
  The prologue shared by the three methods: the shape of \<open>emission_probs\<close> after the
  reshape, \<open>emission_probs\<close> having the shape \<open>(num_model, b, seq_len, q)\<close>.
\<close>

definition chunk_emission_probs :: "nat \<Rightarrow> nat \<Rightarrow> nat list \<Rightarrow> tf_error + nat list" where
  "chunk_emission_probs parallel_factor q inputs_shape =
     (case inputs_shape of
        [num_model, b, seq_len, s] \<Rightarrow>
          if parallel_factor = 0 then Inl InvalidArgumentError
          else
            let chunk_size = seq_len div parallel_factor
            in reshape [num_model, b, seq_len, q] [num_model * b * parallel_factor, chunk_size, q]
      | _ \<Rightarrow> Inl InvalidArgumentError)"

text \<open>
  The three methods; the argument \<open>run_cell\<close> stands for the rest of the method, the
  runs of the cells on the reshaped tensor. An exception of the prologue ends the call.
\<close>

definition forward_recursion :: "nat \<Rightarrow> nat \<Rightarrow> (nat list \<Rightarrow> tf_error + 'r) \<Rightarrow> nat list \<Rightarrow> tf_error + 'r" where
  "forward_recursion parallel_factor q run_cell inputs_shape =
     (case chunk_emission_probs parallel_factor q inputs_shape of
        Inl e \<Rightarrow> Inl e
      | Inr emission_probs_shape \<Rightarrow> run_cell emission_probs_shape)"

definition backward_recursion :: "nat \<Rightarrow> nat \<Rightarrow> (nat list \<Rightarrow> tf_error + 'r) \<Rightarrow> nat list \<Rightarrow> tf_error + 'r" where
  "backward_recursion parallel_factor q run_reverse_cell inputs_shape =
     (case chunk_emission_probs parallel_factor q inputs_shape of
        Inl e \<Rightarrow> Inl e
      | Inr emission_probs_shape \<Rightarrow> run_reverse_cell emission_probs_shape)"

definition state_posterior_log_probs :: "nat \<Rightarrow> nat \<Rightarrow> (nat list \<Rightarrow> tf_error + 'r) \<Rightarrow> nat list \<Rightarrow> tf_error + 'r" where
  "state_posterior_log_probs parallel_factor q run_cells inputs_shape =
     (case chunk_emission_probs parallel_factor q inputs_shape of
        Inl e \<Rightarrow> Inl e
      | Inr emission_probs_shape \<Rightarrow> run_cells emission_probs_shape)"

section \<open>Viterbi.py: get_state_seqs_max_lik\<close>

text \<open>
  \<^verbatim>\<open>
  seq_len = np.amax(data.seq_lens[indices]+1)
  #initialize with terminal states
  state_seqs_max_lik = np.zeros((hmm_cell.num_models, indices.size, seq_len),
                                dtype=np.uint16)
  ...
  for i,q in enumerate(hmm_cell.num_states):
      state_seqs_max_lik[i] = q-1 #terminal state
  for (*inputs, batch_indices), _ in ds:
      if hasattr(batch_generator, "return_only_sequences") and ...:
          state_seqs_max_lik_batch = call_viterbi_single(inputs[0]).numpy()
      else:
          state_seqs_max_lik_batch = call_viterbi(inputs).numpy()
      _,b,l = state_seqs_max_lik_batch.shape
      state_seqs_max_lik[:, batch_indices, :l] = state_seqs_max_lik_batch
  return state_seqs_max_lik
  \<close>
  The dataset \<open>ds\<close> comes from \<open>make_dataset\<close> and the batch generator, whose
  versions called here are not among the sources: \<open>ds\<close> is embedded as the list of
  its batches \<open>(inputs, batch_indices)\<close>. The argument \<open>call_viterbi\<close> stands for the
  call of \<open>call_viterbi_single\<close> or \<open>call_viterbi\<close> on the inputs of a batch; it
  returns the decoded states of shape \<open>(num_models, b, l)\<close>, or \<open>None\<close> when the
  call raises. The array holds \<open>uint16\<close> values; storing \<open>q - 1\<close> or an \<open>int16\<close>
  keeps the low 16 bits.
\<close>

datatype py_error = ValueError | IndexError | ViterbiError

type_synonym states_array = "16 word list list list"

text \<open>The array after the loop over \<open>hmm_cell.num_states\<close>.\<close>

definition terminal_fill :: "nat list \<Rightarrow> nat \<Rightarrow> nat \<Rightarrow> states_array" where
  "terminal_fill num_states num_seq seq_len =
     map (\<lambda>q. replicate num_seq (replicate seq_len (word_of_int (int q - 1)))) num_states"

text \<open>\<open>_,b,l = state_seqs_max_lik_batch.shape\<close>.\<close>

definition batch_width :: "states_array \<Rightarrow> nat" where
  "batch_width batch =
     (case batch of [] \<Rightarrow> 0 | m # _ \<Rightarrow> (case m of [] \<Rightarrow> 0 | row # _ \<Rightarrow> length row))"

definition batch_size_of :: "states_array \<Rightarrow> nat" where
  "batch_size_of batch = (case batch of [] \<Rightarrow> 0 | m # _ \<Rightarrow> length m)"

text \<open>
  The assignment \<open>state_seqs_max_lik[:, batch_indices, :l] = state_seqs_max_lik_batch\<close>.
  NumPy broadcasts an axis of size 1 of the right-hand side; it raises \<open>IndexError\<close>
  for a batch index outside the array and \<open>ValueError\<close> when the shapes do not fit.
  The rows are written in the order of \<open>batch_indices\<close>.
\<close>

definition broadcast_nth :: "'a list \<Rightarrow> nat \<Rightarrow> 'a" where
  "broadcast_nth xs i = (if length xs = 1 then xs ! 0 else xs ! i)"

definition assign_row :: "16 word list \<Rightarrow> nat \<Rightarrow> 16 word list \<Rightarrow> 16 word list" where
  "assign_row old l new = map (\<lambda>t. if t < l then new ! t else old ! t) [0..<length old]"

definition assign_rows ::
  "16 word list list \<Rightarrow> nat list \<Rightarrow> nat \<Rightarrow> 16 word list list \<Rightarrow> 16 word list list" where
  "assign_rows rows batch_indices l new_rows =
     fold (\<lambda>k rows. rows[batch_indices ! k :=
              assign_row (rows ! (batch_indices ! k)) l (broadcast_nth new_rows k)])
       [0..<length batch_indices] rows"

definition assign_batch ::
  "states_array \<Rightarrow> nat \<Rightarrow> nat \<Rightarrow> nat list \<Rightarrow> states_array \<Rightarrow> py_error + states_array" where
  "assign_batch arr num_seq seq_len batch_indices batch =
     (let n = length batch; b = batch_size_of batch; l = batch_width batch
      in if \<not> list_all (\<lambda>j. j < num_seq) batch_indices then Inl IndexError
         else if \<not> ((n = length arr \<or> n = 1) \<and> (b = length batch_indices \<or> b = 1) \<and> l \<le> seq_len)
         then Inl ValueError
         else Inr (map (\<lambda>i. assign_rows (arr ! i) batch_indices l (broadcast_nth batch i))
                    [0..<length arr]))"

text \<open>The loop over the batches of \<open>ds\<close>.\<close>

fun run_batches ::
  "('inp \<Rightarrow> states_array option) \<Rightarrow> nat \<Rightarrow> nat \<Rightarrow> ('inp \<times> nat list) list \<Rightarrow> states_array
     \<Rightarrow> py_error + states_array" where
  "run_batches call_viterbi num_seq seq_len [] arr = Inr arr"
| "run_batches call_viterbi num_seq seq_len ((inputs, batch_indices) # ds) arr =
     (case call_viterbi inputs of
        None \<Rightarrow> Inl ViterbiError
      | Some batch \<Rightarrow>
          (case assign_batch arr num_seq seq_len batch_indices batch of
             Inl e \<Rightarrow> Inl e
           | Inr arr' \<Rightarrow> run_batches call_viterbi num_seq seq_len ds arr'))"

text \<open>\<open>np.amax(data.seq_lens[indices]+1)\<close>; \<open>np.amax\<close> of no element raises.\<close>

definition max_seq_len :: "nat list \<Rightarrow> nat list \<Rightarrow> nat" where
  "max_seq_len seq_lens indices = Max (set (map (\<lambda>j. seq_lens ! j + 1) indices))"

definition get_state_seqs_max_lik ::
  "nat list \<Rightarrow> nat list \<Rightarrow> nat list \<Rightarrow> ('inp \<Rightarrow> states_array option) \<Rightarrow> ('inp \<times> nat list) list
     \<Rightarrow> py_error + states_array" where
  "get_state_seqs_max_lik seq_lens indices num_states call_viterbi ds =
     (if \<not> list_all (\<lambda>j. j < length seq_lens) indices then Inl IndexError
      else if indices = [] then Inl ValueError
      else
        let seq_len = max_seq_len seq_lens indices;
            state_seqs_max_lik = terminal_fill num_states (length indices) seq_len
        in run_batches call_viterbi (length indices) seq_len ds state_seqs_max_lik)"

text \<open>
  \<^verbatim>\<open>
  def call_viterbi_single(inputs):
      if encoder is None:
          seq = tf.transpose(inputs, [1,0,2])
      ...
      seq = tf.gather(seq, model_ids, axis=0)
      return viterbi(seq, hmm_cell, non_homogeneous_mask_func=non_homogeneous_mask_func)
  \<close>
  without encoder: \<open>inputs\<close> has the shape \<open>(b, num_models, L)\<close> and holds symbol
  indices; every selected model decodes every sequence of the batch.
\<close>

definition call_viterbi_single ::
  "hmm_cell list \<Rightarrow> nat list \<Rightarrow> mask_func option \<Rightarrow> nat list list list \<Rightarrow> states_array option" where
  "call_viterbi_single cells model_ids mf inputs =
     those (map (\<lambda>m. those (map (\<lambda>x. viterbi (Indices (x ! m)) (cells ! m) None mf) inputs)) model_ids)"

text \<open>The shape \<open>(n, num_seq, seq_len)\<close> of the array.\<close>

definition arr_ok :: "nat \<Rightarrow> nat \<Rightarrow> nat \<Rightarrow> states_array \<Rightarrow> bool" where
  "arr_ok n num_seq seq_len arr \<longleftrightarrow>
     length arr = n \<and> (\<forall>i<n. length (arr ! i) = num_seq \<and> (\<forall>j<num_seq. length (arr ! i ! j) = seq_len))"

section \<open>Shapes\<close>

text \<open>
  TensorFlow checks the shapes of the operands of every operation. The theorems below
  are about calls whose tensors have the documented shapes: \<open>q\<close> states, \<open>L\<close>
  positions, \<open>log_A_dense_t\<close> the transpose of \<open>log_A_dense\<close>.
\<close>

definition is_mat :: "nat \<Rightarrow> nat \<Rightarrow> mat \<Rightarrow> bool" where
  "is_mat r c m \<longleftrightarrow> length m = r \<and> list_all (\<lambda>row. length row = c) m"

definition mask_ok :: "nat \<Rightarrow> mat option \<Rightarrow> bool" where
  "mask_ok q msk \<longleftrightarrow> (case msk of None \<Rightarrow> True | Some m \<Rightarrow> is_mat q q m)"

definition cell_ok :: "nat \<Rightarrow> hmm_cell \<Rightarrow> bool" where
  "cell_ok q cell \<longleftrightarrow>
     0 < q \<and> length (init_dist cell) = q \<and> is_mat q q (log_A_dense cell) \<and>
     log_A_dense_t cell = transpose_mat (log_A_dense cell)"

definition call_ok :: "nat \<Rightarrow> hmm_cell \<Rightarrow> mat \<Rightarrow> mat option \<Rightarrow> mask_func option \<Rightarrow> bool" where
  "call_ok q cell sequences end_hints mf \<longleftrightarrow>
     cell_ok q cell \<and>
     is_mat (length sequences) q (emission_probs cell sequences end_hints) \<and>
     list_all (\<lambda>i. mask_ok q (mask_at mf i (seq_lens_of sequences) cell)) [1..<length sequences]"

text \<open>
  The score that a mask contributes to the transition from \<open>q'\<close> to \<open>q\<close>: nothing
  without a mask, the safe logarithm of its entry otherwise.
\<close>

definition log_mask :: "mat option \<Rightarrow> nat \<Rightarrow> nat \<Rightarrow> real" where
  "log_mask msk q' q = (case msk of None \<Rightarrow> 0 | Some m \<Rightarrow> safe_log (m ! q' ! q))"

section \<open>Auxiliary notions of the statements\<close>

text \<open>
  The matrix that \<open>viterbi_step\<close> reduces: entry \<open>(q', q)\<close> is the score of
  reaching \<open>q\<close> from \<open>q'\<close>.
\<close>

definition step_scores :: "hmm_cell \<Rightarrow> vec \<Rightarrow> mat option \<Rightarrow> mat" where
  "step_scores cell gamma_prev msk =
     (let a = map2 (\<lambda>row g. map (\<lambda>x. x + g) row) (log_A_dense cell) gamma_prev
      in case msk of None \<Rightarrow> a | Some m \<Rightarrow> mat_add a (map (map safe_log) m))"

text \<open>
  The vector whose \<open>argmax\<close> \<open>viterbi_backtracking_step\<close> returns: entry \<open>q'\<close>
  is the score of the predecessor \<open>q'\<close> of the state \<open>st\<close>.
\<close>

definition pred_scores :: "hmm_cell \<Rightarrow> vec \<Rightarrow> mat option \<Rightarrow> nat \<Rightarrow> vec" where
  "pred_scores cell g msk st =
     map (\<lambda>j'. log_A_dense cell ! j' ! st + log_mask msk j' st + g ! j') [0..<length g]"

text \<open>
  The log-probability of a state path \<open>p\<close> up to position \<open>i\<close>, as the
  specification words it: the initial and the emission score of the first state, then
  for every further position the transition score (with the mask term when a mask is
  supplied) and the emission score.
\<close>

fun path_score :: "hmm_cell \<Rightarrow> mat \<Rightarrow> mask_func option \<Rightarrow> nat \<Rightarrow> nat list \<Rightarrow> nat \<Rightarrow> real" where
  "path_score cell em mf sl p 0 = safe_log (init_dist cell ! (p ! 0)) + safe_log (em ! 0 ! (p ! 0))"
| "path_score cell em mf sl p (Suc i) =
     path_score cell em mf sl p i
     + (log_A_dense cell ! (p ! i) ! (p ! Suc i) + log_mask (mask_at mf (Suc i) sl cell) (p ! i) (p ! Suc i))
     + safe_log (em ! Suc i ! (p ! Suc i))"

text \<open>
  A cell with two states for the concrete instances below; its \<open>emission_probs\<close>
  returns the input vectors themselves.
\<close>

definition example_cell :: hmm_cell where
  "example_cell =
     \<lparr>dim = 2, init_dist = [1, 0],
      log_A_dense = [[0, - 1000], [- 1000, 0]],
      log_A_dense_t = [[0, - 1000], [- 1000, 0]],
      emission_probs = (\<lambda>sequences end_hints. sequences)\<rparr>"

definition example_mask :: mask_func where
  "example_mask i seq_lens cell = [[1, 0], [0, 0]]"

text \<open>
  The shapes that \<open>ProfileHMMEmitter.build\<close> gives the kernels of a model of length
  \<open>len\<close> over an alphabet of \<open>s > 0\<close> symbols, and room for its \<open>2 * len + 3\<close>
  states among the \<open>q\<close> rows of the padded matrix.
\<close>

definition kernel_ok :: "nat \<Rightarrow> nat \<times> mat \<Rightarrow> vec \<Rightarrow> nat \<Rightarrow> bool" where
  "kernel_ok q em ins len \<longleftrightarrow>
     0 < fst em \<and> is_mat len (fst em) (snd em) \<and> length ins = fst em \<and> 2 * len + 3 \<le> q"

definition emitter_ok :: "emitter \<Rightarrow> bool" where
  "emitter_ok e \<longleftrightarrow>
     length (emission_kernel e) = length (lengths e) \<and>
     length (insertion_kernel e) = length (lengths e) \<and>
     list_all (\<lambda>(em, ins, len). kernel_ok (max_num_states e) em ins len)
       (zip (emission_kernel e) (zip (insertion_kernel e) (lengths e)))"

text \<open>An emitter with one model of length 1 over two symbols, padded to six states.\<close>

definition example_emitter :: emitter where
  "example_emitter =
     \<lparr>emission_kernel = [(2, [[0, 0]])], insertion_kernel = [[0, 0]], lengths = [1],
      max_num_states = 6\<rparr>"

text \<open>
  A mask of position \<open>i\<close> that forbids every transition but the one of the
  designated path \<open>p\<close>, from \<open>p[i-1]\<close> to \<open>p[i]\<close>.
\<close>

definition forced_mask :: "nat \<Rightarrow> nat list \<Rightarrow> nat \<Rightarrow> mat \<Rightarrow> bool" where
  "forced_mask q p i m \<longleftrightarrow>
     (\<forall>j'<q. \<forall>j<q. m ! j' ! j = (if j' = p ! (i - 1) \<and> j = p ! i then 1 else 0))"

text \<open>
  A call of \<open>viterbi\<close> with such masks, at least two positions, scores that are
  logarithms of probabilities (none above 0), and a designated path whose initial and
  emission probabilities are not zero and whose transition scores are at least
  \<open>ln epsilon\<close>.
\<close>

definition forced_path_call ::
  "nat \<Rightarrow> hmm_cell \<Rightarrow> mat \<Rightarrow> mat option \<Rightarrow> mask_func \<Rightarrow> nat list \<Rightarrow> bool" where
  "forced_path_call q cell s eh f p \<longleftrightarrow>
     call_ok q cell s eh (Some f) \<and> 2 \<le> length s \<and> length p = length s \<and>
     (\<forall>i<length s. p ! i < q) \<and>
     (\<forall>i. 1 \<le> i \<and> i < length s \<longrightarrow> forced_mask q p i (f i (seq_lens_of s) cell)) \<and>
     (\<forall>j'<q. \<forall>j<q. log_A_dense cell ! j' ! j \<le> 0) \<and>
     (\<forall>j<q. init_dist cell ! j \<le> 1) \<and>
     (\<forall>i<length s. \<forall>j<q. emission_probs cell s eh ! i ! j \<le> 1) \<and>
     init_dist cell ! (p ! 0) \<noteq> 0 \<and>
     (\<forall>i<length s. emission_probs cell s eh ! i ! (p ! i) \<noteq> 0) \<and>
     (\<forall>i. 1 \<le> i \<and> i < length s \<longrightarrow> ln epsilon \<le> log_A_dense cell ! (p ! (i - 1)) ! (p ! i))"

text \<open>The mask that allows only the transition from state 1 to state 1.\<close>

definition example_mask_end :: mask_func where
  "example_mask_end i seq_lens cell = [[0, 0], [0, 1]]"

section \<open>Facts about safe_log\<close>

lemma epsilon_pos: "0 < epsilon"
  by (simp add: epsilon_def)

lemma epsilon_less_one: "epsilon < 1"
  by (simp add: epsilon_def)

lemma safe_log_zero: "safe_log 0 = - 1000"
  by (simp add: safe_log_def safe_log_with_def)

lemma safe_log_nonzero: "x \<noteq> 0 \<Longrightarrow> safe_log x = ln (max x epsilon)"
  by (simp add: safe_log_def safe_log_with_def)

lemma safe_log_one: "safe_log 1 = 0"
proof -
  have "max 1 epsilon = (1::real)"
    using epsilon_less_one by (simp add: max_def)
  then show ?thesis
    by (simp add: safe_log_nonzero)
qed

text \<open>
  C4, as the code has it. At \<open>x = 0\<close> the result is the finite sentinel \<open>-1000\<close>.
  A nonzero \<open>x\<close> is clamped from below by \<open>epsilon\<close> before the logarithm is taken,
  so the true logarithm is returned exactly when \<open>epsilon \<le> x\<close>; a nonzero \<open>x\<close>
  below \<open>epsilon\<close> (a subnormal or a negative number) yields \<open>ln epsilon\<close>. The
  selection between the two cases is the arithmetic blend
  \<open>(1 - zero_mask) * log_x + zero_mask * log_zero_val\<close>, not a branch.
\<close>

theorem safe_log_cases:
  "safe_log x = (if x = 0 then - 1000 else if epsilon \<le> x then ln x else ln epsilon)"
  by (simp add: safe_log_def safe_log_with_def max_def)

text \<open>
  C4 as stated fails: \<open>2 ^ -127\<close> is a nonzero (subnormal) \<open>float32\<close>, and
  \<open>safe_log\<close> returns \<open>ln (2 ^ -126)\<close> there, not its logarithm.
\<close>

theorem safe_log_subnormal_counterexample:
  "(1 / 2 ^ 127 :: real) \<noteq> 0 \<and> safe_log (1 / 2 ^ 127) \<noteq> ln (1 / 2 ^ 127)"
proof -
  have lt: "(1 / 2 ^ 127 :: real) < epsilon"
    by (simp add: epsilon_def)
  have "safe_log (1 / 2 ^ 127) = ln epsilon"
    using lt by (simp add: safe_log_nonzero max_def)
  moreover have "ln epsilon \<noteq> ln (1 / 2 ^ 127 :: real)"
  proof
    assume "ln epsilon = ln (1 / 2 ^ 127 :: real)"
    then have "epsilon = (1 / 2 ^ 127 :: real)"
      using epsilon_pos by (subst (asm) ln_inj_iff) simp_all
    with lt show False by simp
  qed
  ultimately show ?thesis by simp
qed

section \<open>Facts about the tensor primitives\<close>

lemma argmax_less: "xs \<noteq> [] \<Longrightarrow> argmax xs < length xs"
proof -
  assume ne: "xs \<noteq> []"
  let ?P = "\<lambda>x. x \<noteq> Max (set xs)"
  have "Max (set xs) \<in> set xs" using ne by simp
  then have "takeWhile ?P xs \<noteq> xs"
    by (auto simp: takeWhile_eq_all_conv)
  moreover have "takeWhile ?P xs @ dropWhile ?P xs = xs" by simp
  ultimately have "dropWhile ?P xs \<noteq> []" by (metis append_Nil2)
  then have "length (dropWhile ?P xs) > 0" by simp
  moreover have "length (takeWhile ?P xs) + length (dropWhile ?P xs) = length xs"
    by (metis length_append takeWhile_dropWhile_id)
  ultimately have "length (takeWhile ?P xs) < length xs" by linarith
  then show ?thesis by (simp add: argmax_def)
qed

lemma argmax_nth: "xs \<noteq> [] \<Longrightarrow> xs ! argmax xs = Max (set xs)"
  using argmax_less[of xs] nth_length_takeWhile[of "\<lambda>x. x \<noteq> Max (set xs)" xs]
  by (auto simp: argmax_def)

lemma argmax_first: "j < argmax xs \<Longrightarrow> xs ! j < Max (set xs)"
proof -
  assume j: "j < argmax xs"
  let ?P = "\<lambda>x. x \<noteq> Max (set xs)"
  have jt: "j < length (takeWhile ?P xs)" using j by (simp add: argmax_def)
  have jl: "j < length xs" using jt length_takeWhile_le[of ?P xs] by linarith
  have "takeWhile ?P xs ! j = xs ! j" using jt by (rule takeWhile_nth)
  moreover have "takeWhile ?P xs ! j \<in> set (takeWhile ?P xs)" using jt by simp
  ultimately have "xs ! j \<noteq> Max (set xs)" using set_takeWhileD by metis
  moreover have "xs ! j \<le> Max (set xs)" using jl by simp
  ultimately show ?thesis by simp
qed

lemma is_mat_nth: "is_mat r c m \<Longrightarrow> i < r \<Longrightarrow> length (m ! i) = c"
  by (auto simp: is_mat_def list_all_length)

lemma transpose_mat_length: "is_mat r c m \<Longrightarrow> 0 < r \<Longrightarrow> length (transpose_mat m) = c"
  by (cases m) (auto simp: transpose_mat_def is_mat_def)

lemma transpose_mat_nth: "is_mat r c m \<Longrightarrow> 0 < r \<Longrightarrow> j < c \<Longrightarrow> transpose_mat m ! j = map (\<lambda>row. row ! j) m"
  by (cases m) (auto simp: transpose_mat_def is_mat_def)

lemma transpose_mat_nth_nth: "is_mat r c m \<Longrightarrow> i < r \<Longrightarrow> j < c \<Longrightarrow> transpose_mat m ! j ! i = m ! i ! j"
  using transpose_mat_nth[of r c m j] by (auto simp: is_mat_def)

lemma is_mat_transpose: "is_mat r c m \<Longrightarrow> 0 < r \<Longrightarrow> is_mat c r (transpose_mat m)"
  by (cases m) (auto simp: transpose_mat_def is_mat_def list_all_length)

lemma set_column: "length a = n \<Longrightarrow> (\<lambda>row. row ! q) ` set a = (\<lambda>i. a ! i ! q) ` {..<n}"
proof -
  assume "length a = n"
  then have "set a = (\<lambda>i. a ! i) ` {..<n}"
    by (auto simp: set_conv_nth)
  then show ?thesis by (simp add: image_image)
qed

lemma is_mat_I: "length m = r \<Longrightarrow> (\<And>i. i < r \<Longrightarrow> length (m ! i) = c) \<Longrightarrow> is_mat r c m"
  by (auto simp: is_mat_def list_all_length)

lemma is_mat_length: "is_mat r c m \<Longrightarrow> length m = r"
  by (simp add: is_mat_def)

lemma vec_add_length: "length xs = n \<Longrightarrow> length ys = n \<Longrightarrow> length (vec_add xs ys) = n"
  by (simp add: vec_add_def)

lemma vec_add_nth: "i < length xs \<Longrightarrow> i < length ys \<Longrightarrow> vec_add xs ys ! i = xs ! i + ys ! i"
  by (simp add: vec_add_def)

lemma mat_add_is_mat: "is_mat r c a \<Longrightarrow> is_mat r c b \<Longrightarrow> is_mat r c (mat_add a b)"
  by (rule is_mat_I) (auto simp: mat_add_def is_mat_length is_mat_nth vec_add_length)

lemma mat_add_nth: "is_mat r c a \<Longrightarrow> is_mat r c b \<Longrightarrow> i < r \<Longrightarrow> j < c \<Longrightarrow>
   mat_add a b ! i ! j = a ! i ! j + b ! i ! j"
  by (simp add: mat_add_def is_mat_length is_mat_nth vec_add_nth)

lemma map_map_is_mat: "is_mat r c m \<Longrightarrow> is_mat r c (map (map f) m)"
  by (rule is_mat_I) (auto simp: is_mat_length is_mat_nth)

lemma viterbi_step_unfold:
  "viterbi_step g e cell msk = vec_add (reduce_max_rows (step_scores cell g msk)) (map safe_log e)"
  by (simp add: viterbi_step_def step_scores_def Let_def)

lemma broadcast_is_mat:
  assumes "is_mat r c A" "length g = r"
  shows "is_mat r c (map2 (\<lambda>row g. map (\<lambda>x. x + g) row) A g)"
  using assms by (intro is_mat_I) (auto simp: is_mat_length is_mat_nth)

lemma broadcast_nth:
  assumes "is_mat r c A" "length g = r" "i < r" "j < c"
  shows "map2 (\<lambda>row g. map (\<lambda>x. x + g) row) A g ! i ! j = A ! i ! j + g ! i"
  using assms by (simp add: is_mat_length is_mat_nth)

lemma step_scores_is_mat:
  assumes "is_mat q q (log_A_dense cell)" "length g = q" "mask_ok q msk"
  shows "is_mat q q (step_scores cell g msk)"
  using assms
  by (auto simp: step_scores_def mask_ok_def intro!: broadcast_is_mat mat_add_is_mat map_map_is_mat
      split: option.splits)

lemma step_scores_nth:
  assumes "is_mat q q (log_A_dense cell)" "length g = q" "mask_ok q msk" "i < q" "j < q"
  shows "step_scores cell g msk ! i ! j = log_A_dense cell ! i ! j + g ! i + log_mask msk i j"
proof (cases msk)
  case None
  then show ?thesis using assms by (simp add: step_scores_def log_mask_def broadcast_nth)
next
  case (Some m)
  then have m: "is_mat q q m" using assms by (simp add: mask_ok_def)
  have "map (map safe_log) m ! i ! j = safe_log (m ! i ! j)"
    using m assms by (simp add: is_mat_length is_mat_nth)
  then show ?thesis
    using Some assms m
    by (simp add: step_scores_def log_mask_def
        mat_add_nth[OF broadcast_is_mat map_map_is_mat] broadcast_nth)
qed

lemma reduce_max_rows_length: "is_mat r c a \<Longrightarrow> 0 < r \<Longrightarrow> length (reduce_max_rows a) = c"
  by (simp add: reduce_max_rows_def transpose_mat_length)

lemma reduce_max_rows_nth:
  "is_mat r c a \<Longrightarrow> 0 < r \<Longrightarrow> j < c \<Longrightarrow> reduce_max_rows a ! j = Max ((\<lambda>i. a ! i ! j) ` {..<r})"
  by (simp add: reduce_max_rows_def transpose_mat_length transpose_mat_nth set_column is_mat_length)

lemma viterbi_step_length:
  assumes "is_mat q q (log_A_dense cell)" "0 < q" "length g = q" "length e = q" "mask_ok q msk"
  shows "length (viterbi_step g e cell msk) = q"
  using assms
  by (simp add: viterbi_step_unfold vec_add_length reduce_max_rows_length[OF step_scores_is_mat])

lemma viterbi_step_nth:
  assumes "is_mat q q (log_A_dense cell)" "0 < q" "length g = q" "length e = q" "mask_ok q msk"
    and "j < q"
  shows "viterbi_step g e cell msk ! j =
     Max ((\<lambda>i. log_A_dense cell ! i ! j + g ! i + log_mask msk i j) ` {..<q}) + safe_log (e ! j)"
proof -
  have sm: "is_mat q q (step_scores cell g msk)"
    using assms by (simp add: step_scores_is_mat)
  have "viterbi_step g e cell msk ! j = reduce_max_rows (step_scores cell g msk) ! j + safe_log (e ! j)"
    using assms by (simp add: viterbi_step_unfold vec_add_nth reduce_max_rows_length[OF sm])
  also have "reduce_max_rows (step_scores cell g msk) ! j = Max ((\<lambda>i. step_scores cell g msk ! i ! j) ` {..<q})"
    using assms by (simp add: reduce_max_rows_nth[OF sm])
  also have "(\<lambda>i. step_scores cell g msk ! i ! j) ` {..<q} = (\<lambda>i. log_A_dense cell ! i ! j + g ! i + log_mask msk i j) ` {..<q}"
    using assms by (intro image_cong) (simp_all add: step_scores_nth)
  finally show ?thesis .
qed

section \<open>The recurrence of the score table\<close>

lemma dyn_loop_length: "length (dyn_loop cell em mf sl i n g) = n"
  by (induction n arbitrary: i g) (simp_all add: Let_def)

lemma dyn_loop_step:
  "k < n \<Longrightarrow> (g # dyn_loop cell em mf sl i n g) ! Suc k =
     viterbi_step ((g # dyn_loop cell em mf sl i n g) ! k) (em ! (i + k)) cell (mask_at mf (i + k) sl cell)"
proof (induction n arbitrary: i g k)
  case 0
  then show ?case by simp
next
  case (Suc n)
  show ?case
  proof (cases k)
    case 0
    then show ?thesis by (simp add: Let_def)
  next
    case (Suc k')
    then have "k' < n" using Suc.prems by simp
    from Suc.IH[OF this, of "viterbi_step g (em ! i) cell (mask_at mf i sl cell)" "Suc i"]
    show ?thesis using Suc by (simp add: Let_def)
  qed
qed

lemma dyn_loop_row_length:
  assumes "is_mat q q (log_A_dense cell)" "0 < q" "length g = q"
    and "\<And>k. k < n \<Longrightarrow> length (em ! (i + k)) = q \<and> mask_ok q (mask_at mf (i + k) sl cell)"
    and "k \<le> n"
  shows "length ((g # dyn_loop cell em mf sl i n g) ! k) = q"
  using assms(5)
proof (induction k)
  case 0
  then show ?case using assms(3) by simp
next
  case (Suc k)
  then have k: "k < n" by simp
  have "length ((g # dyn_loop cell em mf sl i n g) ! k) = q" using Suc by simp
  then show ?case
    using assms(1,2) assms(4)[OF k]
    by (simp only: dyn_loop_step[OF k] viterbi_step_length)
qed

lemma call_ok_em: "call_ok q cell s eh mf \<Longrightarrow> i < length s \<Longrightarrow> length (emission_probs cell s eh ! i) = q"
  by (auto simp: call_ok_def is_mat_nth)

lemma call_ok_mask: "call_ok q cell s eh mf \<Longrightarrow> 0 < i \<Longrightarrow> i < length s \<Longrightarrow> mask_ok q (mask_at mf i (seq_lens_of s) cell)"
  by (auto simp: call_ok_def list_all_iff)

lemma call_ok_A: "call_ok q cell s eh mf \<Longrightarrow> is_mat q q (log_A_dense cell)"
  by (simp add: call_ok_def cell_ok_def)

lemma call_ok_pos: "call_ok q cell s eh mf \<Longrightarrow> 0 < q"
  by (simp add: call_ok_def cell_ok_def)

lemma call_ok_init: "call_ok q cell s eh mf \<Longrightarrow> length (init_dist cell) = q"
  by (simp add: call_ok_def cell_ok_def)

lemma viterbi_dyn_prog_Some:
  "s \<noteq> [] \<Longrightarrow> viterbi_dyn_prog s cell eh mf =
     Some (let g0 = vec_add (map safe_log (init_dist cell)) (map safe_log (emission_probs cell s eh ! 0))
           in g0 # dyn_loop cell (emission_probs cell s eh) mf (seq_lens_of s) 1 (length s - 1) g0)"
  by (simp add: viterbi_dyn_prog_def Let_def)

lemma viterbi_dyn_prog_None: "viterbi_dyn_prog [] cell eh mf = None"
  by (simp add: viterbi_dyn_prog_def)

lemma gamma_props:
  assumes ok: "call_ok q cell s eh mf" and g: "viterbi_dyn_prog s cell eh mf = Some gamma"
  shows gamma_length: "length gamma = length s"
    and gamma_nonempty: "s \<noteq> []"
    and gamma_row_length: "i < length s \<Longrightarrow> length (gamma ! i) = q"
    and gamma_zero: "j < q \<Longrightarrow> gamma ! 0 ! j = safe_log (init_dist cell ! j) + safe_log (emission_probs cell s eh ! 0 ! j)"
    and gamma_step: "0 < i \<Longrightarrow> i < length s \<Longrightarrow> j < q \<Longrightarrow> gamma ! i ! j =
       Max ((\<lambda>j'. log_A_dense cell ! j' ! j + gamma ! (i - 1) ! j' + log_mask (mask_at mf i (seq_lens_of s) cell) j' j) ` {..<q})
        + safe_log (emission_probs cell s eh ! i ! j)"
proof -
  show ne: "s \<noteq> []" using g by (auto simp: viterbi_dyn_prog_def)
  define em where "em = emission_probs cell s eh"
  define g0 where "g0 = vec_add (map safe_log (init_dist cell)) (map safe_log (em ! 0))"
  have geq: "gamma = g0 # dyn_loop cell em mf (seq_lens_of s) 1 (length s - 1) g0"
    using g ne by (simp add: viterbi_dyn_prog_Some Let_def g0_def em_def)
  show len: "length gamma = length s" using ne by (simp add: geq dyn_loop_length)
  have em0: "length (em ! 0) = q" using ok ne by (simp add: em_def call_ok_em)
  have g0len: "length g0 = q"
    using em0 call_ok_init[OF ok] by (simp add: g0_def vec_add_length)
  have side: "\<And>k. k < length s - 1 \<Longrightarrow> length (em ! (1 + k)) = q \<and> mask_ok q (mask_at mf (1 + k) (seq_lens_of s) cell)"
    using ok by (simp add: em_def call_ok_em call_ok_mask)
  have rows: "\<And>k. k \<le> length s - 1 \<Longrightarrow> length (gamma ! k) = q"
    unfolding geq
    by (rule dyn_loop_row_length[OF call_ok_A[OF ok] call_ok_pos[OF ok] g0len side])
  show "i < length s \<Longrightarrow> length (gamma ! i) = q" using rows[of i] by simp
  show "j < q \<Longrightarrow> gamma ! 0 ! j = safe_log (init_dist cell ! j) + safe_log (emission_probs cell s eh ! 0 ! j)"
    using em0 call_ok_init[OF ok] by (simp add: geq g0_def vec_add_nth em_def)
  show "0 < i \<Longrightarrow> i < length s \<Longrightarrow> j < q \<Longrightarrow> gamma ! i ! j =
       Max ((\<lambda>j'. log_A_dense cell ! j' ! j + gamma ! (i - 1) ! j' + log_mask (mask_at mf i (seq_lens_of s) cell) j' j) ` {..<q})
        + safe_log (emission_probs cell s eh ! i ! j)"
  proof -
    assume i: "0 < i" "i < length s" and j: "j < q"
    obtain k where k: "i = Suc k" using i by (cases i) auto
    have kl: "k < length s - 1" using i k by simp
    have st: "gamma ! Suc k = viterbi_step (gamma ! k) (em ! (1 + k)) cell (mask_at mf (1 + k) (seq_lens_of s) cell)"
      unfolding geq by (rule dyn_loop_step[OF kl])
    have "length (gamma ! k) = q" using rows[of k] kl by simp
    then show ?thesis
      using viterbi_step_nth[OF call_ok_A[OF ok] call_ok_pos[OF ok] _ _ _ j, of "gamma ! k" "em ! (1 + k)" "mask_at mf (1 + k) (seq_lens_of s) cell"]
        side[OF kl] st k
      by (simp add: em_def)
  qed
qed

section \<open>The backtracking loop\<close>

lemma viterbi_backtracking_step_eq:
  assumes c: "cell_ok q cell" and g: "length g = q" and m: "mask_ok q msk" and st: "st < q"
  shows "viterbi_backtracking_step st g cell msk = argmax (pred_scores cell g msk st)"
proof -
  have A: "is_mat q q (log_A_dense cell)" and q: "0 < q"
    and t: "log_A_dense_t cell = transpose_mat (log_A_dense cell)"
    using c by (simp_all add: cell_ok_def)
  have At: "is_mat q q (transpose_mat (log_A_dense cell))"
    using A q by (rule is_mat_transpose)
  show ?thesis
  proof (cases msk)
    case None
    have "vec_add (transpose_mat (log_A_dense cell) ! st) g = pred_scores cell g None st"
      using A q st g
      by (intro nth_equalityI)
        (simp_all add: vec_add_length is_mat_nth[OF At] pred_scores_def vec_add_nth
          transpose_mat_nth_nth[OF A] log_mask_def)
    then show ?thesis using None by (simp add: viterbi_backtracking_step_def t)
  next
    case (Some mm)
    then have mm: "is_mat q q mm" using m by (simp add: mask_ok_def)
    have mt: "is_mat q q (map (map safe_log) (transpose_mat mm))"
      using mm q by (intro map_map_is_mat is_mat_transpose)
    have sum: "is_mat q q (mat_add (transpose_mat (log_A_dense cell)) (map (map safe_log) (transpose_mat mm)))"
      using At mt by (rule mat_add_is_mat)
    have ent: "\<And>j'. j' < q \<Longrightarrow> map (map safe_log) (transpose_mat mm) ! st ! j' = safe_log (mm ! j' ! st)"
      using st is_mat_transpose[OF mm q] transpose_mat_nth_nth[OF mm]
      by (simp add: is_mat_length is_mat_nth)
    have "vec_add (mat_add (transpose_mat (log_A_dense cell)) (map (map safe_log) (transpose_mat mm)) ! st) g
            = pred_scores cell g (Some mm) st"
      using st g
      by (intro nth_equalityI)
        (simp_all add: vec_add_length is_mat_nth[OF sum] pred_scores_def vec_add_nth
          mat_add_nth[OF At mt] transpose_mat_nth_nth[OF A] ent log_mask_def)
    then show ?thesis using Some by (simp add: viterbi_backtracking_step_def t)
  qed
qed

lemma pred_scores_length: "length (pred_scores cell g msk st) = length g"
  by (simp add: pred_scores_def)

lemma pred_scores_nth: "j < length g \<Longrightarrow> pred_scores cell g msk st ! j = log_A_dense cell ! j ! st + log_mask msk j st + g ! j"
  by (simp add: pred_scores_def)

lemma pred_scores_set: "set (pred_scores cell g msk st) = (\<lambda>j'. log_A_dense cell ! j' ! st + g ! j' + log_mask msk j' st) ` {..<length g}"
  by (auto simp: pred_scores_def atLeast0LessThan[symmetric] algebra_simps)

lemma bt_loop_length: "length (bt_loop cell gamma sl mf n st acc) = n + length acc"
  by (induction n arbitrary: st acc) (simp_all add: Let_def)

lemma bt_loop_drop: "drop n (bt_loop cell gamma sl mf n st acc) = acc"
proof (induction n arbitrary: st acc)
  case 0
  then show ?case by simp
next
  case (Suc n)
  let ?q' = "viterbi_backtracking_step st (gamma ! n) cell (mask_at mf (n + 1) sl cell)"
  have "drop n (bt_loop cell gamma sl mf n ?q' (?q' # acc)) = ?q' # acc" by (rule Suc.IH)
  then have "drop (Suc n) (bt_loop cell gamma sl mf n ?q' (?q' # acc)) = acc"
    by (metis drop_Suc list.sel(3) tl_drop)
  then show ?case by (simp add: Let_def)
qed

lemma bt_loop_step:
  "i < n \<Longrightarrow> acc \<noteq> [] \<Longrightarrow> hd acc = st \<Longrightarrow>
   bt_loop cell gamma sl mf n st acc ! i =
     viterbi_backtracking_step (bt_loop cell gamma sl mf n st acc ! Suc i) (gamma ! i) cell (mask_at mf (i + 1) sl cell)"
proof (induction n arbitrary: st acc)
  case 0
  then show ?case by simp
next
  case (Suc n)
  let ?q' = "viterbi_backtracking_step st (gamma ! n) cell (mask_at mf (n + 1) sl cell)"
  let ?r = "bt_loop cell gamma sl mf n ?q' (?q' # acc)"
  have r: "bt_loop cell gamma sl mf (Suc n) st acc = ?r" by (simp add: Let_def)
  show ?case
  proof (cases "i < n")
    case True
    then show ?thesis using Suc.IH[of "?q' # acc" ?q'] by (simp add: Let_def)
  next
    case False
    then have i: "i = n" using Suc.prems by simp
    have d: "drop n ?r = ?q' # acc" by (rule bt_loop_drop)
    have len: "length ?r = n + Suc (length acc)" by (simp add: bt_loop_length)
    have "?r ! n = hd (drop n ?r)" using len by (simp add: hd_drop_conv_nth)
    then have rn: "?r ! n = ?q'" using d by simp
    have "drop (Suc n) ?r = acc" using d by (metis drop_Suc list.sel(3) tl_drop)
    moreover have "?r ! Suc n = hd (drop (Suc n) ?r)"
      using len Suc.prems by (simp add: hd_drop_conv_nth)
    ultimately have "?r ! Suc n = st" using Suc.prems by simp
    then show ?thesis using rn i r by simp
  qed
qed

lemma decoded_states_props:
  assumes "gamma \<noteq> []"
  shows ds_length: "length (decoded_states cell gamma sl mf) = length gamma"
    and ds_last: "decoded_states cell gamma sl mf ! (length gamma - 1) = argmax (last gamma)"
    and ds_step: "Suc i < length gamma \<Longrightarrow> decoded_states cell gamma sl mf ! i =
       viterbi_backtracking_step (decoded_states cell gamma sl mf ! Suc i) (gamma ! i) cell (mask_at mf (i + 1) sl cell)"
proof -
  let ?q = "argmax (last gamma)"
  let ?n = "length gamma - 1"
  have eq: "decoded_states cell gamma sl mf = bt_loop cell gamma sl mf ?n ?q [?q]"
    by (simp add: decoded_states_def Let_def)
  show "length (decoded_states cell gamma sl mf) = length gamma"
    using assms by (simp add: eq bt_loop_length)
  have "drop ?n (bt_loop cell gamma sl mf ?n ?q [?q]) = [?q]" by (rule bt_loop_drop)
  moreover have "length (bt_loop cell gamma sl mf ?n ?q [?q]) = ?n + 1" by (simp add: bt_loop_length)
  ultimately show "decoded_states cell gamma sl mf ! (length gamma - 1) = argmax (last gamma)"
    unfolding eq by (metis hd_drop_conv_nth less_add_one list.sel(1))
  show "Suc i < length gamma \<Longrightarrow> decoded_states cell gamma sl mf ! i =
       viterbi_backtracking_step (decoded_states cell gamma sl mf ! Suc i) (gamma ! i) cell (mask_at mf (i + 1) sl cell)"
    unfolding eq by (rule bt_loop_step) simp_all
qed

lemma call_ok_cell: "call_ok q cell s eh mf \<Longrightarrow> cell_ok q cell"
  by (simp add: call_ok_def)

lemma last_gamma:
  assumes ok: "call_ok q cell s eh mf" and g: "viterbi_dyn_prog s cell eh mf = Some gamma"
  shows "last gamma = gamma ! (length s - 1)" and "gamma \<noteq> []"
proof -
  have "length gamma = length s" "s \<noteq> []" using gamma_length[OF ok g] gamma_nonempty[OF ok g] by simp_all
  then show "gamma \<noteq> []" by auto
  then show "last gamma = gamma ! (length s - 1)"
    using \<open>length gamma = length s\<close> by (simp add: last_conv_nth)
qed

lemma ds_in_range:
  assumes ok: "call_ok q cell s eh mf" and g: "viterbi_dyn_prog s cell eh mf = Some gamma"
    and i: "i < length s"
  shows "decoded_states cell gamma (seq_lens_of s) mf ! i < q"
proof -
  let ?ds = "decoded_states cell gamma (seq_lens_of s) mf"
  have len: "length gamma = length s" by (rule gamma_length[OF ok g])
  have ne: "gamma \<noteq> []" by (rule last_gamma(2)[OF ok g])
  have "k < length s \<Longrightarrow> ?ds ! (length s - 1 - k) < q" for k
  proof (induction k)
    case 0
    have "length (last gamma) = q"
      using gamma_row_length[OF ok g, of "length s - 1"] last_gamma(1)[OF ok g] 0 by simp
    then have "last gamma \<noteq> []" using call_ok_pos[OF ok] by auto
    then have "argmax (last gamma) < q"
      using argmax_less[of "last gamma"] \<open>length (last gamma) = q\<close> by simp
    then show ?case using ds_last[OF ne, of cell "seq_lens_of s" mf] len by simp
  next
    case (Suc k)
    let ?i = "length s - 1 - Suc k"
    have si: "Suc ?i = length s - 1 - k" using Suc.prems by simp
    have ih: "?ds ! (length s - 1 - k) < q" using Suc.IH Suc.prems by simp
    have st: "?ds ! Suc ?i < q" using ih unfolding si .
    have il: "Suc ?i < length gamma" using Suc.prems len by simp
    have gl: "length (gamma ! ?i) = q" using gamma_row_length[OF ok g, of ?i] Suc.prems by simp
    have mk: "mask_ok q (mask_at mf (?i + 1) (seq_lens_of s) cell)"
      using call_ok_mask[OF ok, of "?i + 1"] Suc.prems by simp
    have "?ds ! ?i = argmax (pred_scores cell (gamma ! ?i) (mask_at mf (?i + 1) (seq_lens_of s) cell) (?ds ! Suc ?i))"
      using ds_step[OF ne il, of cell "seq_lens_of s" mf]
        viterbi_backtracking_step_eq[OF call_ok_cell[OF ok] gl mk st] by simp
    moreover have "pred_scores cell (gamma ! ?i) (mask_at mf (?i + 1) (seq_lens_of s) cell) (?ds ! Suc ?i) \<noteq> []"
      using gl call_ok_pos[OF ok] pred_scores_length[of cell "gamma ! ?i"] by (metis length_greater_0_conv)
    ultimately show ?case
      using argmax_less[of "pred_scores cell (gamma ! ?i) (mask_at mf (?i + 1) (seq_lens_of s) cell) (?ds ! Suc ?i)"]
        gl by (simp add: pred_scores_length)
  qed
  from this[of "length s - 1 - i"] i show ?thesis by simp
qed

lemma ds_choice:
  assumes ok: "call_ok q cell s eh mf" and g: "viterbi_dyn_prog s cell eh mf = Some gamma"
    and i: "Suc i < length s"
  defines "ds \<equiv> decoded_states cell gamma (seq_lens_of s) mf"
  shows "log_A_dense cell ! (ds ! i) ! (ds ! Suc i) + gamma ! i ! (ds ! i)
           + log_mask (mask_at mf (Suc i) (seq_lens_of s) cell) (ds ! i) (ds ! Suc i)
         = Max ((\<lambda>j'. log_A_dense cell ! j' ! (ds ! Suc i) + gamma ! i ! j'
                  + log_mask (mask_at mf (Suc i) (seq_lens_of s) cell) j' (ds ! Suc i)) ` {..<q})"
    and "ds ! i = argmax (pred_scores cell (gamma ! i) (mask_at mf (Suc i) (seq_lens_of s) cell) (ds ! Suc i))"
proof -
  let ?m = "mask_at mf (Suc i) (seq_lens_of s) cell"
  let ?ps = "pred_scores cell (gamma ! i) ?m (ds ! Suc i)"
  have len: "length gamma = length s" by (rule gamma_length[OF ok g])
  have ne: "gamma \<noteq> []" by (rule last_gamma(2)[OF ok g])
  have gl: "length (gamma ! i) = q" using gamma_row_length[OF ok g, of i] i by simp
  have mk: "mask_ok q ?m" using call_ok_mask[OF ok, of "Suc i"] i by simp
  have st: "ds ! Suc i < q" unfolding ds_def by (rule ds_in_range[OF ok g i])
  have il: "Suc i < length gamma" using i len by simp
  show eq: "ds ! i = argmax ?ps"
    using ds_step[OF ne il, of cell "seq_lens_of s" mf]
      viterbi_backtracking_step_eq[OF call_ok_cell[OF ok] gl mk st] by (simp add: ds_def)
  have pne: "?ps \<noteq> []"
    using gl call_ok_pos[OF ok] pred_scores_length[of cell "gamma ! i"] by (metis length_greater_0_conv)
  have lt: "ds ! i < q" using argmax_less[OF pne] eq gl by (simp add: pred_scores_length)
  have "?ps ! (ds ! i) = Max (set ?ps)" unfolding eq by (rule argmax_nth[OF pne])
  then show "log_A_dense cell ! (ds ! i) ! (ds ! Suc i) + gamma ! i ! (ds ! i) + log_mask ?m (ds ! i) (ds ! Suc i)
         = Max ((\<lambda>j'. log_A_dense cell ! j' ! (ds ! Suc i) + gamma ! i ! j' + log_mask ?m j' (ds ! Suc i)) ` {..<q})"
    using lt gl by (simp add: pred_scores_nth pred_scores_set algebra_simps)
qed

lemma path_score_gamma:
  assumes ok: "call_ok q cell s eh mf" and g: "viterbi_dyn_prog s cell eh mf = Some gamma"
    and i: "i < length s"
  shows "path_score cell (emission_probs cell s eh) mf (seq_lens_of s)
           (decoded_states cell gamma (seq_lens_of s) mf) i
         = gamma ! i ! (decoded_states cell gamma (seq_lens_of s) mf ! i)"
  using i
proof (induction i)
  case 0
  then show ?case
    using gamma_zero[OF ok g ds_in_range[OF ok g 0]] by simp
next
  case (Suc i)
  let ?ds = "decoded_states cell gamma (seq_lens_of s) mf"
  have ih: "path_score cell (emission_probs cell s eh) mf (seq_lens_of s) ?ds i = gamma ! i ! (?ds ! i)"
    using Suc by simp
  have st: "?ds ! Suc i < q" by (rule ds_in_range[OF ok g Suc.prems])
  show ?case
    using gamma_step[OF ok g _ Suc.prems st] ds_choice(1)[OF ok g Suc.prems] ih
    by simp
qed

lemma sint16_of_nat: "n < 32768 \<Longrightarrow> nat (sint (word_of_nat n :: 16 word)) = n"
proof -
  assume n: "n < 32768"
  have "sint (word_of_nat n :: 16 word) = signed_take_bit 15 (int n)"
    by (simp add: signed_of_nat)
  also have "\<dots> = int n"
    using n by (intro signed_take_bit_int_eq_self) simp_all
  finally show ?thesis by simp
qed

section \<open>The score table and the decoded path\<close>

text \<open>
  C5. For a call with well-shaped tensors and at least one position,
  \<open>viterbi_dyn_prog\<close> returns a score table \<open>gamma\<close> with one row per position;
  \<open>gamma_0(q) = log(init(q)) + log(emission_0(q))\<close>, and for every position
  \<open>i > 0\<close>, \<open>gamma_i(q)\<close> is the maximum over the predecessors \<open>q'\<close> of
  \<open>log_A(q', q) + gamma_{i-1}(q')\<close> (plus \<open>log(mask_i(q', q))\<close> when a mask is
  supplied), plus \<open>log(emission_i(q))\<close>. The logarithm of the initial, emission and
  mask values is \<open>safe_log\<close>; the transition scores are the cell's \<open>log_A_dense\<close>.
\<close>

theorem viterbi_dyn_prog_recurrence:
  assumes ok: "call_ok q cell sequences end_hints mf" and ne: "sequences \<noteq> []"
  shows "\<exists>gamma. viterbi_dyn_prog sequences cell end_hints mf = Some gamma \<and>
           length gamma = length sequences \<and>
           (\<forall>j<q. gamma ! 0 ! j =
              safe_log (init_dist cell ! j)
              + safe_log (emission_probs cell sequences end_hints ! 0 ! j)) \<and>
           (\<forall>i j. 0 < i \<and> i < length sequences \<and> j < q \<longrightarrow>
              gamma ! i ! j =
                Max ((\<lambda>j'. log_A_dense cell ! j' ! j + gamma ! (i - 1) ! j'
                            + log_mask (mask_at mf i (seq_lens_of sequences) cell) j' j) ` {..<q})
                + safe_log (emission_probs cell sequences end_hints ! i ! j))"
proof -
  obtain gamma where g: "viterbi_dyn_prog sequences cell end_hints mf = Some gamma"
    using ne by (simp add: viterbi_dyn_prog_Some)
  show ?thesis
    using g gamma_length[OF ok g] gamma_zero[OF ok g] gamma_step[OF ok g]
    by (intro exI[of _ gamma]) simp
qed

theorem viterbi_dyn_prog_recurrence_witness:
  "call_ok 2 example_cell [[1, 0], [0, 1]] None (Some example_mask) \<and>
   (\<exists>gamma. viterbi_dyn_prog [[1, 0], [0, 1]] example_cell None (Some example_mask) = Some gamma \<and>
      length gamma = 2 \<and> gamma ! 0 ! 0 = 0 \<and> gamma ! 0 ! 1 = - 2000)"
proof -
  have ok: "call_ok 2 example_cell [[1, 0], [0, 1]] None (Some example_mask)"
    by (simp add: call_ok_def cell_ok_def is_mat_def mask_ok_def mask_at_def example_cell_def
        example_mask_def transpose_mat_def upt_rec)
  have ne: "[[1, 0], [0, 1 :: real]] \<noteq> []" by simp
  from viterbi_dyn_prog_recurrence[OF ok ne]
  obtain gamma where g: "viterbi_dyn_prog [[1, 0], [0, 1]] example_cell None (Some example_mask) = Some gamma"
    and l: "length gamma = 2"
    and z: "\<forall>j<2. gamma ! 0 ! j = safe_log (init_dist example_cell ! j)
              + safe_log (emission_probs example_cell [[1, 0], [0, 1]] None ! 0 ! j)"
    by auto
  have "gamma ! 0 ! 0 = 0" using z by (simp add: example_cell_def safe_log_one)
  moreover have "gamma ! 0 ! 1 = - 2000" using z by (simp add: example_cell_def safe_log_zero)
  ultimately show ?thesis using ok g l by simp
qed

lemma viterbi_unfold:
  assumes "viterbi_dyn_prog (to_vectors inp cell) cell eh mf = Some gamma" "gamma \<noteq> []"
  shows "viterbi inp cell eh mf =
     Some (map word_of_nat (decoded_states cell gamma (seq_lens_of (to_vectors inp cell)) mf))"
  using assms by (simp add: viterbi_def viterbi_backtracking_def Let_def)

text \<open>
  C2. For a call with well-shaped tensors, at least one position and at most \<open>2^15\<close>
  states (so that the cast to \<open>int16\<close> keeps every state id), \<open>viterbi\<close> returns a
  path of in-range states, one per position, and summing the initial, transition
  (with mask term) and emission scores along this path gives exactly the maximum of the
  last row of the score table of \<open>viterbi_dyn_prog\<close>.
\<close>

theorem viterbi_path_optimal:
  assumes ok: "call_ok q cell (to_vectors inp cell) end_hints mf"
    and ne: "to_vectors inp cell \<noteq> []"
    and small: "q \<le> 32768"
  shows "\<exists>gamma path.
           viterbi_dyn_prog (to_vectors inp cell) cell end_hints mf = Some gamma \<and>
           viterbi inp cell end_hints mf = Some path \<and>
           length path = length (to_vectors inp cell) \<and>
           (\<forall>i<length path. nat (sint (path ! i)) < q) \<and>
           path_score cell (emission_probs cell (to_vectors inp cell) end_hints) mf
               (seq_lens_of (to_vectors inp cell)) (map (\<lambda>w. nat (sint w)) path) (length path - 1)
             = Max (set (gamma ! (length path - 1)))"
proof -
  let ?s = "to_vectors inp cell"
  obtain gamma where g: "viterbi_dyn_prog ?s cell end_hints mf = Some gamma"
    using ne by (simp add: viterbi_dyn_prog_Some)
  let ?ds = "decoded_states cell gamma (seq_lens_of ?s) mf"
  let ?path = "map word_of_nat ?ds :: 16 word list"
  have gne: "gamma \<noteq> []" by (rule last_gamma(2)[OF ok g])
  have len: "length gamma = length ?s" by (rule gamma_length[OF ok g])
  have v: "viterbi inp cell end_hints mf = Some ?path" by (rule viterbi_unfold[OF g gne])
  have dl: "length ?ds = length ?s" using ds_length[OF gne] len by simp
  have rng: "\<And>i. i < length ?s \<Longrightarrow> ?ds ! i < q" by (rule ds_in_range[OF ok g])
  have conv: "map (\<lambda>w. nat (sint w)) ?path = ?ds"
  proof (rule nth_equalityI)
    show "length (map (\<lambda>w. nat (sint w)) ?path) = length ?ds" by simp
    fix i assume "i < length (map (\<lambda>w. nat (sint w)) ?path)"
    then have i: "i < length ?s" using dl by simp
    then have "?ds ! i < 32768" using rng[OF i] small by simp
    then show "map (\<lambda>w. nat (sint w)) ?path ! i = ?ds ! i"
      using i dl by (simp add: sint16_of_nat)
  qed
  have pos: "length ?s - 1 < length ?s" using ne by simp
  have lastg: "gamma ! (length ?s - 1) \<noteq> []"
    using gamma_row_length[OF ok g pos] call_ok_pos[OF ok] by auto
  have "path_score cell (emission_probs cell ?s end_hints) mf (seq_lens_of ?s) ?ds (length ?s - 1)
          = gamma ! (length ?s - 1) ! (?ds ! (length ?s - 1))"
    by (rule path_score_gamma[OF ok g pos])
  also have "?ds ! (length ?s - 1) = argmax (gamma ! (length ?s - 1))"
    using ds_last[OF gne, of cell "seq_lens_of ?s" mf] last_gamma(1)[OF ok g] len by simp
  also have "gamma ! (length ?s - 1) ! argmax (gamma ! (length ?s - 1)) = Max (set (gamma ! (length ?s - 1)))"
    by (rule argmax_nth[OF lastg])
  finally have opt: "path_score cell (emission_probs cell ?s end_hints) mf (seq_lens_of ?s) ?ds (length ?s - 1)
          = Max (set (gamma ! (length ?s - 1)))" .
  have "\<forall>i<length ?path. nat (sint (?path ! i)) < q"
  proof (intro allI impI)
    fix i assume "i < length ?path"
    then have i: "i < length ?s" using dl by simp
    have "nat (sint (?path ! i)) = map (\<lambda>w. nat (sint w)) ?path ! i" using i dl by simp
    then show "nat (sint (?path ! i)) < q" using rng[OF i] conv by simp
  qed
  then show ?thesis
    using g v dl opt conv by (intro exI[of _ gamma] exI[of _ ?path]) simp
qed

theorem viterbi_path_optimal_witness:
  "call_ok 2 example_cell (to_vectors (Indices [0, 1]) example_cell) None (Some example_mask) \<and>
   (\<exists>path. viterbi (Indices [0, 1]) example_cell None (Some example_mask) = Some path \<and>
      length path = 2 \<and> nat (sint (path ! 0)) < 2)"
proof -
  have tv: "to_vectors (Indices [0, 1]) example_cell = [[1, 0], [0, 1]]"
    by (simp add: one_hot_def example_cell_def upt_rec)
  have ok: "call_ok 2 example_cell (to_vectors (Indices [0, 1]) example_cell) None (Some example_mask)"
    unfolding tv
    by (simp add: call_ok_def cell_ok_def is_mat_def mask_ok_def mask_at_def example_cell_def
        example_mask_def transpose_mat_def upt_rec)
  have ne: "to_vectors (Indices [0, 1]) example_cell \<noteq> []" by (simp add: tv)
  have small: "(2::nat) \<le> 32768" by simp
  from viterbi_path_optimal[OF ok ne small]
  obtain path where "viterbi (Indices [0, 1]) example_cell None (Some example_mask) = Some path"
    and "length path = length (to_vectors (Indices [0, 1]) example_cell)"
    and "\<forall>i<length path. nat (sint (path ! i)) < 2"
    by blast
  then show ?thesis using ok by (auto simp: tv)
qed

section \<open>The emission matrices\<close>

lemma sum_exp_pos: "xs \<noteq> [] \<Longrightarrow> 0 < sum_list (map exp (xs :: real list))"
proof -
  assume "xs \<noteq> []"
  then obtain y ys where xs: "xs = y # ys" by (cases xs) auto
  have "0 \<le> sum_list (map exp ys)" by (rule sum_list_nonneg) auto
  then show ?thesis using xs by (simp add: add_pos_nonneg)
qed

lemma softmax_length: "length (softmax xs) = length xs"
  by (simp add: softmax_def)

lemma softmax_nonneg: "x \<in> set (softmax xs) \<Longrightarrow> 0 \<le> x"
  by (cases "xs = []") (auto simp: softmax_def intro!: divide_nonneg_nonneg less_imp_le[OF sum_exp_pos])

lemma softmax_sum: "xs \<noteq> [] \<Longrightarrow> sum_list (softmax xs) = 1"
proof -
  assume ne: "xs \<noteq> []"
  let ?S = "sum_list (map exp xs)"
  have "sum_list (softmax xs) = sum_list (map (\<lambda>x. exp x * inverse ?S) xs)"
    by (simp add: softmax_def divide_inverse)
  also have "\<dots> = ?S * inverse ?S"
    by (simp add: sum_list_mult_const)
  also have "\<dots> = 1" using sum_exp_pos[OF ne] by simp
  finally show ?thesis .
qed

lemma one_hot_length: "length (one_hot i d) = d"
  by (simp add: one_hot_def)

lemma one_hot_nth: "j < d \<Longrightarrow> one_hot i d ! j = (if j = i then 1 else 0)"
  by (simp add: one_hot_def)

lemma one_hot_sum: "i < d \<Longrightarrow> sum_list (one_hot i d) = 1"
proof -
  assume "i < d"
  have "sum_list (map (\<lambda>j. if j = i then 1 else (0::real)) [0..<d]) = (\<Sum>j = 0..<d. if j = i then 1 else 0)"
    by (simp add: sum_list_sum_nth atLeast0LessThan)
  also have "\<dots> = 1" using \<open>i < d\<close> by simp
  finally show ?thesis by (simp add: one_hot_def)
qed

lemma one_hot_nonneg: "x \<in> set (one_hot i d) \<Longrightarrow> 0 \<le> x"
  by (auto simp: one_hot_def)

text \<open>The rows of the matrix of one model.\<close>

lemma emission_matrix_length:
  "length (make_default_emission_matrix (s, rows) ins len) = length rows + len + 3"
  by (simp add: make_default_emission_matrix_def Let_def)

lemma emission_matrix_last:
  "make_default_emission_matrix (s, rows) ins len ! (length rows + len + 2) = one_hot s (s + 1)"
  by (simp add: make_default_emission_matrix_def Let_def nth_append)

lemma emission_matrix_row:
  assumes "0 < s" "is_mat len s rows" "length ins = s" "r < 2 * len + 2"
  shows "\<exists>xs. length xs = s \<and> make_default_emission_matrix (s, rows) ins len ! r = softmax xs @ [0]"
proof -
  let ?pre = "[ins] @ rows @ replicate (len + 1) ins"
  have lr: "length rows = len" using assms by (simp add: is_mat_def)
  have r: "r < length ?pre" using assms lr by simp
  have "?pre ! r \<in> set ?pre" using r by (rule nth_mem)
  then have len_r: "length (?pre ! r) = s"
    using assms by (auto simp: is_mat_def list_all_iff)
  then have "softmax (?pre ! r) \<noteq> []" using assms by (auto simp: softmax_def)
  then have z: "map (\<lambda>_. 0::real) (take 1 (softmax (?pre ! r))) = [0]"
    by (cases "softmax (?pre ! r)") simp_all
  let ?f = "\<lambda>row. softmax row @ map (\<lambda>_. 0::real) (take 1 (softmax row))"
  have "make_default_emission_matrix (s, rows) ins len = map ?f ?pre @ [one_hot s (s + 1)]"
    by (simp add: make_default_emission_matrix_def Let_def)
  then have "make_default_emission_matrix (s, rows) ins len ! r = map ?f ?pre ! r"
    using r by (simp only: nth_append length_map if_True)
  also have "\<dots> = ?f (?pre ! r)" using r by (rule nth_map)
  finally have "make_default_emission_matrix (s, rows) ins len ! r =
      softmax (?pre ! r) @ map (\<lambda>_. 0) (take 1 (softmax (?pre ! r)))" .
  then show ?thesis using len_r z by (intro exI[of _ "?pre ! r"]) simp
qed

lemma those_map_Some: "(\<And>x. x \<in> set xs \<Longrightarrow> f x = Some (g x)) \<Longrightarrow> those (map f xs) = Some (map g xs)"
  by (induction xs) simp_all

lemma emission_matrix_rows:
  assumes ok: "kernel_ok q (s, rows) ins len"
  defines "m \<equiv> make_default_emission_matrix (s, rows) ins len"
  shows "length m = 2 * len + 3"
    and "r < 2 * len + 2 \<Longrightarrow> length (m ! r) = s + 1 \<and> (\<forall>x\<in>set (m ! r). 0 \<le> x) \<and> sum_list (m ! r) = 1 \<and> m ! r ! s = 0"
    and "m ! (2 * len + 2) = one_hot s (s + 1)"
    and "length (hd m) = s + 1"
proof -
  have s: "0 < s" and mat: "is_mat len s rows" and ins: "length ins = s"
    using ok by (simp_all add: kernel_ok_def)
  have lr: "length rows = len" using mat by (simp add: is_mat_def)
  show len_m: "length m = 2 * len + 3" by (simp add: m_def emission_matrix_length lr)
  show "m ! (2 * len + 2) = one_hot s (s + 1)"
    using emission_matrix_last[of s rows ins len] by (simp add: m_def lr mult_2)
  have row: "\<And>r. r < 2 * len + 2 \<Longrightarrow>
       length (m ! r) = s + 1 \<and> (\<forall>x\<in>set (m ! r). 0 \<le> x) \<and> sum_list (m ! r) = 1 \<and> m ! r ! s = 0"
  proof -
    fix r assume "r < 2 * len + 2"
    from emission_matrix_row[OF s mat ins this]
    obtain xs where xs: "length xs = s" "m ! r = softmax xs @ [0]" by (auto simp: m_def)
    have "xs \<noteq> []" using xs s by auto
    then show "length (m ! r) = s + 1 \<and> (\<forall>x\<in>set (m ! r). 0 \<le> x) \<and> sum_list (m ! r) = 1 \<and> m ! r ! s = 0"
      using xs by (auto simp: softmax_length softmax_sum softmax_nonneg nth_append)
  qed
  show "r < 2 * len + 2 \<Longrightarrow> length (m ! r) = s + 1 \<and> (\<forall>x\<in>set (m ! r). 0 \<le> x) \<and> sum_list (m ! r) = 1 \<and> m ! r ! s = 0"
    by (rule row)
  have "m \<noteq> []" using len_m by auto
  then have "hd m = m ! 0" by (simp add: hd_conv_nth)
  then show "length (hd m) = s + 1" using row[of 0] by simp
qed

text \<open>
  C10. With kernels of the shapes that \<open>build\<close> creates, \<open>make_B\<close> returns one
  matrix of \<open>max_num_states\<close> rows per model. For model \<open>k\<close> of length \<open>len\<close>,
  with \<open>n = 2 * len + 3\<close> real states: each of the first \<open>n\<close> rows has
  \<open>s + 1\<close> non-negative entries that sum to 1; each of them but the last has 0 at the
  terminal symbol \<open>s\<close>; row \<open>n - 1\<close>, the end state, is the one-hot vector of the
  terminal symbol; and every row from \<open>n\<close> on is zero.
\<close>

theorem make_B_rows:
  assumes ok: "emitter_ok e" and k: "k < length (lengths e)"
  shows "\<exists>B. make_B e = Some B \<and> length B = length (lengths e) \<and>
           (let s = fst (emission_kernel e ! k); n = 2 * (lengths e ! k) + 3
            in length (B ! k) = max_num_states e \<and>
               (\<forall>r<n. length (B ! k ! r) = s + 1 \<and> (\<forall>x\<in>set (B ! k ! r). 0 \<le> x) \<and>
                       sum_list (B ! k ! r) = 1) \<and>
               (\<forall>r<n - 1. B ! k ! r ! s = 0) \<and>
               B ! k ! (n - 1) = one_hot s (s + 1) \<and>
               (\<forall>r. n \<le> r \<and> r < max_num_states e \<longrightarrow> B ! k ! r = replicate (s + 1) 0))"
proof -
  let ?q = "max_num_states e"
  let ?zs = "zip (emission_kernel e) (zip (insertion_kernel e) (lengths e))"
  let ?g = "\<lambda>(em, ins, len). pad_rows (make_default_emission_matrix em ins len)
                (?q - length (make_default_emission_matrix em ins len))"
  let ?f = "\<lambda>(em, ins, len).
               let em_mat = make_default_emission_matrix em ins len;
                   n = length em_mat
               in if ?q < n then None else Some (pad_rows em_mat (?q - n))"
  have lens: "length (emission_kernel e) = length (lengths e)"
    "length (insertion_kernel e) = length (lengths e)"
    using ok by (simp_all add: emitter_ok_def)
  have all: "\<And>em ins len. (em, ins, len) \<in> set ?zs \<Longrightarrow> kernel_ok ?q em ins len"
    using ok by (auto simp: emitter_ok_def list_all_iff)
  have fg: "\<And>x. x \<in> set ?zs \<Longrightarrow> ?f x = Some (?g x)"
  proof -
    fix x assume x: "x \<in> set ?zs"
    obtain em ins len where xe: "x = (em, ins, len)" by (cases x) auto
    obtain s rows where em: "em = (s, rows)" by (cases em) auto
    have kok: "kernel_ok ?q (s, rows) ins len" using all x xe em by simp
    have "length (make_default_emission_matrix (s, rows) ins len) = 2 * len + 3"
      by (rule emission_matrix_rows(1)[OF kok])
    moreover have "2 * len + 3 \<le> ?q" using kok by (simp add: kernel_ok_def)
    ultimately show "?f x = Some (?g x)" by (simp add: xe em Let_def)
  qed
  have B: "make_B e = Some (map ?g ?zs)"
    unfolding make_B_def by (rule those_map_Some[OF fg])
  have lz: "length ?zs = length (lengths e)" using lens by simp
  obtain s rows where em: "emission_kernel e ! k = (s, rows)" by (cases "emission_kernel e ! k") auto
  let ?ins = "insertion_kernel e ! k"
  let ?len = "lengths e ! k"
  let ?m = "make_default_emission_matrix (s, rows) ?ins ?len"
  have zk: "?zs ! k = ((s, rows), ?ins, ?len)" using k lens em by simp
  then have "((s, rows), ?ins, ?len) \<in> set ?zs" using k lz by (metis nth_mem)
  then have kok: "kernel_ok ?q (s, rows) ?ins ?len" by (rule all)
  note R = emission_matrix_rows[OF kok]
  have le: "2 * ?len + 3 \<le> ?q" using kok by (simp add: kernel_ok_def)
  have Bk: "map ?g ?zs ! k = ?m @ replicate (?q - (2 * ?len + 3)) (replicate (s + 1) 0)"
    using k lz zk R(1) R(4) by (simp add: pad_rows_def)
  have lo: "\<And>r. r < 2 * ?len + 3 \<Longrightarrow> map ?g ?zs ! k ! r = ?m ! r"
    using R(1) by (simp add: Bk nth_append)
  have hi: "\<And>r. 2 * ?len + 3 \<le> r \<Longrightarrow> r < ?q \<Longrightarrow> map ?g ?zs ! k ! r = replicate (s + 1) 0"
    using R(1) by (simp add: Bk nth_append)
  have lenBk: "length (map ?g ?zs ! k) = ?q" using R(1) le by (simp add: Bk)
  have p1: "\<forall>r<2 * ?len + 3. length (map ?g ?zs ! k ! r) = s + 1 \<and>
      (\<forall>x\<in>set (map ?g ?zs ! k ! r). 0 \<le> x) \<and> sum_list (map ?g ?zs ! k ! r) = 1"
  proof (intro allI impI)
    fix r assume r: "r < 2 * ?len + 3"
    show "length (map ?g ?zs ! k ! r) = s + 1 \<and>
      (\<forall>x\<in>set (map ?g ?zs ! k ! r). 0 \<le> x) \<and> sum_list (map ?g ?zs ! k ! r) = 1"
    proof (cases "r < 2 * ?len + 2")
      case True
      then show ?thesis using R(2)[OF True] lo[OF r] by simp
    next
      case False
      then have "r = 2 * ?len + 2" using r by simp
      then show ?thesis
        using R(3) lo[OF r] by (auto simp: one_hot_length one_hot_sum dest: one_hot_nonneg)
    qed
  qed
  have p2: "\<forall>r<2 * ?len + 3 - 1. map ?g ?zs ! k ! r ! s = 0"
    using R(2) lo by simp
  have p3: "map ?g ?zs ! k ! (2 * ?len + 3 - 1) = one_hot s (s + 1)"
    using R(3) lo[of "2 * ?len + 2"] by simp
  show ?thesis
    using B lz lenBk p1 p2 p3 hi
    by (intro exI[of _ "map ?g ?zs"]) (simp add: Let_def em)
qed

theorem make_B_rows_witness:
  "emitter_ok example_emitter \<and> 0 < length (lengths example_emitter) \<and>
   (\<exists>B. make_B example_emitter = Some B \<and> length (B ! 0) = 6 \<and>
      sum_list (B ! 0 ! 0) = 1 \<and> B ! 0 ! 4 = [0, 0, 1] \<and> B ! 0 ! 5 = [0, 0, 0])"
proof -
  have ok: "emitter_ok example_emitter"
    by (simp add: emitter_ok_def example_emitter_def kernel_ok_def is_mat_def)
  have k: "0 < length (lengths example_emitter)"
    by (simp add: example_emitter_def)
  from make_B_rows[OF ok k]
  obtain B where B: "make_B example_emitter = Some B"
    and P: "let s = fst (emission_kernel example_emitter ! 0); n = 2 * (lengths example_emitter ! 0) + 3
            in length (B ! 0) = max_num_states example_emitter \<and>
               (\<forall>r<n. length (B ! 0 ! r) = s + 1 \<and> (\<forall>x\<in>set (B ! 0 ! r). 0 \<le> x) \<and>
                       sum_list (B ! 0 ! r) = 1) \<and>
               (\<forall>r<n - 1. B ! 0 ! r ! s = 0) \<and>
               B ! 0 ! (n - 1) = one_hot s (s + 1) \<and>
               (\<forall>r. n \<le> r \<and> r < max_num_states example_emitter \<longrightarrow> B ! 0 ! r = replicate (s + 1) 0)"
    by blast
  have "length (B ! 0) = 6" using P by (simp add: example_emitter_def Let_def)
  moreover have "sum_list (B ! 0 ! 0) = 1" using P by (simp add: example_emitter_def Let_def)
  moreover have "B ! 0 ! 4 = [0, 0, 1]"
    using P by (simp add: example_emitter_def Let_def one_hot_def upt_rec)
  moreover have "B ! 0 ! 5 = [0, 0, 0]"
    using P by (simp add: example_emitter_def Let_def numeral_3_eq_3 numeral_2_eq_2)
  ultimately show ?thesis using ok k B by blast
qed

section \<open>Sequence lengths that the chunks do not divide\<close>

lemma chunk_emission_probs_indivisible:
  assumes nd: "\<not> parallel_factor dvd seq_len" and pos: "0 < num_model" "0 < b" "0 < q"
  shows "chunk_emission_probs parallel_factor q [num_model, b, seq_len, s] = Inl InvalidArgumentError"
proof (cases "parallel_factor = 0")
  case True
  then show ?thesis by (simp add: chunk_emission_probs_def)
next
  case False
  have "parallel_factor * (seq_len div parallel_factor) \<noteq> seq_len"
    using nd by (metis dvd_triv_left)
  then have "num_model * b * seq_len * q \<noteq> num_model * b * parallel_factor * (seq_len div parallel_factor) * q"
    using pos by (simp add: mult.assoc)
  then show ?thesis
    using False by (simp add: chunk_emission_probs_def reshape_def Let_def mult.assoc)
qed

lemma chunk_emission_probs_divisible:
  assumes "parallel_factor dvd seq_len" "0 < parallel_factor"
  shows "chunk_emission_probs parallel_factor q [num_model, b, seq_len, s] =
           Inr [num_model * b * parallel_factor, seq_len div parallel_factor, q]"
  using assms by (simp add: chunk_emission_probs_def reshape_def Let_def mult.assoc)

text \<open>
  C9. When \<open>parallel_factor\<close> does not divide the sequence length of a non-empty
  input (at least one model, one sequence and one state), each of
  \<open>forward_recursion\<close>, \<open>backward_recursion\<close> and \<open>state_posterior_log_probs\<close>
  ends with the shape error of the reshape, whatever the cells would do: no position is
  dropped silently.
\<close>

theorem indivisible_length_rejected:
  assumes "\<not> parallel_factor dvd seq_len" and "0 < num_model" "0 < b" "0 < q"
  shows "forward_recursion parallel_factor q run_cell [num_model, b, seq_len, s] = Inl InvalidArgumentError \<and>
         backward_recursion parallel_factor q run_reverse_cell [num_model, b, seq_len, s] = Inl InvalidArgumentError \<and>
         state_posterior_log_probs parallel_factor q run_cells [num_model, b, seq_len, s] = Inl InvalidArgumentError"
  using chunk_emission_probs_indivisible[OF assms]
  by (simp add: forward_recursion_def backward_recursion_def state_posterior_log_probs_def)

theorem indivisible_length_rejected_witness:
  "\<not> (2::nat) dvd 3 \<and>
   forward_recursion 2 5 (\<lambda>sh. Inr sh) [1, 1, 3, 4] = Inl InvalidArgumentError \<and>
   backward_recursion 2 5 (\<lambda>sh. Inr sh) [1, 1, 3, 4] = Inl InvalidArgumentError \<and>
   state_posterior_log_probs 2 5 (\<lambda>sh. Inr sh) [1, 1, 3, 4] = Inl InvalidArgumentError"
proof -
  have nd: "\<not> (2::nat) dvd 3" by simp
  show ?thesis
    using nd indivisible_length_rejected[OF nd, of 1 1 5 "\<lambda>sh. Inr sh" 4 "\<lambda>sh. Inr sh" "\<lambda>sh. Inr sh"]
    by simp
qed

section \<open>The terminal states of the decoded array\<close>

lemma assign_row_length: "length (assign_row old l new) = length old"
  by (simp add: assign_row_def)

lemma assign_row_keep: "l \<le> t \<Longrightarrow> t < length old \<Longrightarrow> assign_row old l new ! t = old ! t"
  by (simp add: assign_row_def)

lemma assign_row_write: "t < l \<Longrightarrow> t < length old \<Longrightarrow> assign_row old l new ! t = new ! t"
  by (simp add: assign_row_def)

lemma fold_assign_props:
  fixes rows :: "16 word list list"
  assumes "\<forall>j<length rows. length (rows ! j) = seq_len"
  shows "length (fold (\<lambda>k rows. rows[idxs ! k := assign_row (rows ! (idxs ! k)) l (src k)]) ks rows) = length rows \<and>
    (\<forall>j<length rows. length (fold (\<lambda>k rows. rows[idxs ! k := assign_row (rows ! (idxs ! k)) l (src k)]) ks rows ! j) = seq_len) \<and>
    (\<forall>j t. j < length rows \<and> l \<le> t \<and> t < seq_len \<longrightarrow>
        fold (\<lambda>k rows. rows[idxs ! k := assign_row (rows ! (idxs ! k)) l (src k)]) ks rows ! j ! t = rows ! j ! t) \<and>
    (\<forall>j. j < length rows \<and> (\<forall>k\<in>set ks. idxs ! k \<noteq> j) \<longrightarrow>
        fold (\<lambda>k rows. rows[idxs ! k := assign_row (rows ! (idxs ! k)) l (src k)]) ks rows ! j = rows ! j)"
  using assms
proof (induction ks arbitrary: rows)
  case Nil
  then show ?case by simp
next
  case (Cons k ks)
  let ?f = "\<lambda>k rows. rows[idxs ! k := assign_row (rows ! (idxs ! k)) l (src k)]"
  let ?rows' = "?f k rows"
  have l': "length ?rows' = length rows" by simp
  have r': "\<forall>j<length ?rows'. length (?rows' ! j) = seq_len"
    using Cons.prems
    by (cases "idxs ! k < length rows") (auto simp: nth_list_update assign_row_length)
  note IH = Cons.IH[OF r']
  have keep: "\<And>j t. j < length rows \<Longrightarrow> l \<le> t \<Longrightarrow> t < seq_len \<Longrightarrow> ?rows' ! j ! t = rows ! j ! t"
    using Cons.prems
    by (cases "idxs ! k < length rows") (auto simp: nth_list_update assign_row_keep)
  have other: "\<And>j. j < length rows \<Longrightarrow> idxs ! k \<noteq> j \<Longrightarrow> ?rows' ! j = rows ! j"
    by simp
  have eq: "fold ?f (k # ks) rows = fold ?f ks ?rows'" by simp
  show ?case
    unfolding eq using IH keep other by (simp add: l')
qed

lemma assign_rows_props:
  assumes "\<forall>j<length rows. length (rows ! j) = seq_len"
  shows "length (assign_rows rows idxs l new_rows) = length rows"
    and "j < length rows \<Longrightarrow> length (assign_rows rows idxs l new_rows ! j) = seq_len"
    and "j < length rows \<Longrightarrow> l \<le> t \<Longrightarrow> t < seq_len \<Longrightarrow> assign_rows rows idxs l new_rows ! j ! t = rows ! j ! t"
    and "j < length rows \<Longrightarrow> j \<notin> set idxs \<Longrightarrow> assign_rows rows idxs l new_rows ! j = rows ! j"
proof -
  note P = fold_assign_props[OF assms, of idxs l "broadcast_nth new_rows" "[0..<length idxs]"]
  show "length (assign_rows rows idxs l new_rows) = length rows"
    using P by (simp add: assign_rows_def)
  show "j < length rows \<Longrightarrow> length (assign_rows rows idxs l new_rows ! j) = seq_len"
    using P by (simp add: assign_rows_def)
  show "j < length rows \<Longrightarrow> l \<le> t \<Longrightarrow> t < seq_len \<Longrightarrow> assign_rows rows idxs l new_rows ! j ! t = rows ! j ! t"
    using P by (simp add: assign_rows_def)
  show "j < length rows \<Longrightarrow> j \<notin> set idxs \<Longrightarrow> assign_rows rows idxs l new_rows ! j = rows ! j"
  proof -
    assume j: "j < length rows" "j \<notin> set idxs"
    then have "\<forall>k\<in>set [0..<length idxs]. idxs ! k \<noteq> j" by (auto simp: in_set_conv_nth)
    then show ?thesis using P j by (simp add: assign_rows_def)
  qed
qed

lemma arr_ok_terminal_fill: "arr_ok (length num_states) num_seq seq_len (terminal_fill num_states num_seq seq_len)"
  by (simp add: arr_ok_def terminal_fill_def)

lemma terminal_fill_nth:
  "i < length num_states \<Longrightarrow> j < num_seq \<Longrightarrow> t < seq_len \<Longrightarrow>
   terminal_fill num_states num_seq seq_len ! i ! j ! t = word_of_int (int (num_states ! i) - 1)"
  by (simp add: terminal_fill_def)

lemma assign_batch_props:
  assumes ok: "arr_ok n num_seq seq_len arr"
    and a: "assign_batch arr num_seq seq_len idxs batch = Inr arr'"
  shows "arr_ok n num_seq seq_len arr'"
    and "i < n \<Longrightarrow> j < num_seq \<Longrightarrow> t < seq_len \<Longrightarrow> batch_width batch \<le> t \<or> j \<notin> set idxs \<Longrightarrow>
           arr' ! i ! j ! t = arr ! i ! j ! t"
proof -
  let ?l = "batch_width batch"
  have eq: "arr' = map (\<lambda>i. assign_rows (arr ! i) idxs ?l (broadcast_nth batch i)) [0..<length arr]"
    using a by (simp add: assign_batch_def Let_def split: if_splits)
  have n: "length arr = n" using ok by (simp add: arr_ok_def)
  have rows: "\<And>i. i < n \<Longrightarrow> length (arr ! i) = num_seq \<and> (\<forall>j<length (arr ! i). length (arr ! i ! j) = seq_len)"
    using ok by (simp add: arr_ok_def)
  show "arr_ok n num_seq seq_len arr'"
    unfolding arr_ok_def
  proof (intro conjI allI impI)
    show "length arr' = n" using n by (simp add: eq)
  next
    fix i assume i: "i < n"
    have r: "\<forall>j<length (arr ! i). length (arr ! i ! j) = seq_len" using rows[OF i] by simp
    have e: "arr' ! i = assign_rows (arr ! i) idxs ?l (broadcast_nth batch i)"
      using i n by (simp add: eq)
    show "length (arr' ! i) = num_seq"
      using assign_rows_props(1)[OF r] rows[OF i] by (simp add: e)
    fix j assume "j < num_seq"
    then have "j < length (arr ! i)" using rows[OF i] by simp
    then show "length (arr' ! i ! j) = seq_len"
      using assign_rows_props(2)[OF r] by (simp add: e)
  qed
  show "i < n \<Longrightarrow> j < num_seq \<Longrightarrow> t < seq_len \<Longrightarrow> batch_width batch \<le> t \<or> j \<notin> set idxs \<Longrightarrow>
           arr' ! i ! j ! t = arr ! i ! j ! t"
  proof -
    assume i: "i < n" and j: "j < num_seq" and t: "t < seq_len"
      and c: "batch_width batch \<le> t \<or> j \<notin> set idxs"
    have r: "\<forall>j<length (arr ! i). length (arr ! i ! j) = seq_len" using rows[OF i] by simp
    have jl: "j < length (arr ! i)" using rows[OF i] j by simp
    have "arr' ! i = assign_rows (arr ! i) idxs ?l (broadcast_nth batch i)"
      using i n by (simp add: eq)
    then show ?thesis
      using c assign_rows_props(3)[OF r jl _ t, of ?l idxs "broadcast_nth batch i"]
        assign_rows_props(4)[OF r jl, of idxs ?l "broadcast_nth batch i"]
      by auto
  qed
qed

lemma run_batches_props:
  assumes "arr_ok n num_seq seq_len arr"
    and "run_batches call_viterbi num_seq seq_len ds arr = Inr result"
  shows "arr_ok n num_seq seq_len result \<and>
         (\<forall>i j t. i < n \<and> j < num_seq \<and> t < seq_len \<and>
            (\<forall>(inputs, idxs)\<in>set ds. j \<in> set idxs \<longrightarrow>
                (\<forall>batch. call_viterbi inputs = Some batch \<longrightarrow> batch_width batch \<le> t))
            \<longrightarrow> result ! i ! j ! t = arr ! i ! j ! t)"
  using assms
proof (induction ds arbitrary: arr)
  case Nil
  then show ?case by simp
next
  case (Cons d ds)
  obtain inputs idxs where d: "d = (inputs, idxs)" by (cases d) auto
  obtain batch where b: "call_viterbi inputs = Some batch"
    using Cons.prems(2) d by (auto split: option.splits)
  obtain arr' where a: "assign_batch arr num_seq seq_len idxs batch = Inr arr'"
    and r: "run_batches call_viterbi num_seq seq_len ds arr' = Inr result"
    using Cons.prems(2) d b by (auto split: sum.splits)
  note A = assign_batch_props[OF Cons.prems(1) a]
  note IH = Cons.IH[OF A(1) r]
  show ?case
  proof (intro conjI allI impI)
    show "arr_ok n num_seq seq_len result" using IH by simp
  next
    fix i j t
    assume h: "i < n \<and> j < num_seq \<and> t < seq_len \<and>
            (\<forall>(inputs, idxs)\<in>set (d # ds). j \<in> set idxs \<longrightarrow>
                (\<forall>batch. call_viterbi inputs = Some batch \<longrightarrow> batch_width batch \<le> t))"
    then have "result ! i ! j ! t = arr' ! i ! j ! t" using IH by auto
    moreover have "batch_width batch \<le> t \<or> j \<notin> set idxs" using h d b by auto
    then have "arr' ! i ! j ! t = arr ! i ! j ! t" using A(2)[of i j t] h by simp
    ultimately show "result ! i ! j ! t = arr ! i ! j ! t" by simp
  qed
qed

text \<open>
  C8, as the code has it. In the result of \<open>get_state_seqs_max_lik\<close>, for every model
  \<open>i\<close> and sequence \<open>j\<close>, every position \<open>t\<close> that lies at or beyond the width
  \<open>l\<close> of every decoded batch containing \<open>j\<close> holds the terminal-state id
  \<open>num_states[i] - 1\<close>. Positions below the width of the batch are overwritten with
  the output of Viterbi on the batch.
\<close>

theorem terminal_beyond_batch_width:
  assumes run: "get_state_seqs_max_lik seq_lens indices num_states call_viterbi ds = Inr result"
    and i: "i < length num_states" and j: "j < length indices"
    and t: "t < max_seq_len seq_lens indices"
    and w: "\<forall>(inputs, batch_indices)\<in>set ds. j \<in> set batch_indices \<longrightarrow>
              (\<forall>batch. call_viterbi inputs = Some batch \<longrightarrow> batch_width batch \<le> t)"
  shows "result ! i ! j ! t = word_of_int (int (num_states ! i) - 1)"
proof -
  let ?sl = "max_seq_len seq_lens indices"
  let ?arr = "terminal_fill num_states (length indices) ?sl"
  have r: "run_batches call_viterbi (length indices) ?sl ds ?arr = Inr result"
    using run by (simp add: get_state_seqs_max_lik_def Let_def split: if_splits)
  from run_batches_props[OF arr_ok_terminal_fill r]
  have "result ! i ! j ! t = ?arr ! i ! j ! t" using i j t w by blast
  then show ?thesis using i j t by (simp add: terminal_fill_nth)
qed

theorem terminal_beyond_batch_width_witness:
  "get_state_seqs_max_lik [1, 3] [0, 1] [2] Some [([[[0, 0]]], [0]), ([[[0, 0, 0, 1]]], [1])]
     = Inr [[[0, 0, 1, 1], [0, 0, 0, 1]]] \<and>
   ([[[0, 0, 1, 1], [0, 0, 0, 1]]] :: states_array) ! 0 ! 0 ! 2 = word_of_int (int ([2] ! 0) - 1)"
proof -
  have run: "get_state_seqs_max_lik [1, 3] [0, 1] [2] Some [([[[0, 0]]], [0]), ([[[0, 0, 0, 1]]], [1])]
     = Inr [[[0, 0, 1, 1], [0, 0, 0, 1 :: 16 word]]]"
    by (simp add: get_state_seqs_max_lik_def max_seq_len_def terminal_fill_def assign_batch_def
        assign_rows_def assign_row_def broadcast_nth_def batch_width_def batch_size_of_def Let_def
        upt_rec numeral_2_eq_2 numeral_3_eq_3 eval_nat_numeral)
  have i: "0 < length [2::nat]" by simp
  have j: "0 < length [0, 1::nat]" by simp
  have t: "2 < max_seq_len [1, 3] [0, 1]" by (simp add: max_seq_len_def)
  have w: "\<forall>(inputs, batch_indices)\<in>set [([[[0, 0]]], [0]), ([[[0, 0, 0, 1 :: 16 word]]], [1::nat])].
             0 \<in> set batch_indices \<longrightarrow> (\<forall>batch. Some inputs = Some batch \<longrightarrow> batch_width batch \<le> 2)"
    by (simp add: batch_width_def)
  show ?thesis
    using run terminal_beyond_batch_width[OF run i j t w] by simp
qed

text \<open>
  C8 as stated fails. A sequence of true length 1 is decoded in a batch of width 2 (the
  symbol \<open>0\<close>, then the terminal symbol \<open>1\<close>) under \<open>example_cell\<close>, whose
  terminal state \<open>1\<close> cannot be reached from state \<open>0\<close>: position 1, beyond the
  true length, holds the decoded state \<open>0\<close> and not the terminal-state id \<open>1\<close>.
\<close>

lemma viterbi_example_padded:
  "viterbi (Indices [0, 1]) example_cell None None = Some [0, 0]"
  by (simp add: viterbi_def viterbi_dyn_prog_def viterbi_backtracking_def decoded_states_def
      viterbi_step_def viterbi_backtracking_step_def reduce_max_rows_def transpose_mat_def
      argmax_def one_hot_def vec_add_def mat_add_def mask_at_def seq_lens_of_def example_cell_def
      safe_log_zero safe_log_one Let_def upt_rec)

theorem decoded_beyond_length_counterexample:
  "get_state_seqs_max_lik [1] [0] [2] (call_viterbi_single [example_cell] [0] None)
       [([[[0, 1]]], [0])] = Inr [[[0, 0]]] \<and>
   [1 :: nat] ! 0 \<le> 1 \<and>
   ([[[0, 0]]] :: states_array) ! 0 ! 0 ! 1 \<noteq> word_of_int (int ([2] ! 0) - 1)"
proof -
  have cv: "call_viterbi_single [example_cell] [0] None [[[0, 1]]] = Some [[[0, 0]]]"
    using viterbi_example_padded by (simp add: call_viterbi_single_def)
  have "get_state_seqs_max_lik [1] [0] [2] (call_viterbi_single [example_cell] [0] None)
       [([[[0, 1]]], [0])] = Inr [[[0, 0]]]"
    using cv
    by (simp add: get_state_seqs_max_lik_def max_seq_len_def terminal_fill_def assign_batch_def
        assign_rows_def assign_row_def broadcast_nth_def batch_width_def batch_size_of_def Let_def
        upt_rec numeral_2_eq_2)
  then show ?thesis by simp
qed

section \<open>Decoding under a mask that forces one path\<close>

lemma safe_log_le_zero: "x \<le> 1 \<Longrightarrow> safe_log x \<le> 0"
proof (cases "x = 0")
  case True
  then show ?thesis by (simp add: safe_log_zero)
next
  case False
  assume "x \<le> 1"
  then have "max x epsilon \<le> 1" using epsilon_less_one by simp
  moreover have "0 < max x epsilon" using epsilon_pos by (simp add: max_def)
  ultimately have "ln (max x epsilon) \<le> 0" by simp
  then show ?thesis using False by (simp add: safe_log_nonzero)
qed

lemma safe_log_ge_ln_epsilon: "x \<noteq> 0 \<Longrightarrow> ln epsilon \<le> safe_log x"
proof -
  assume "x \<noteq> 0"
  moreover have "ln epsilon \<le> ln (max x epsilon)"
    using epsilon_pos by (intro ln_mono) simp_all
  ultimately show ?thesis by (simp add: safe_log_nonzero)
qed

lemma ln_epsilon_bound: "- 126 < ln epsilon"
proof -
  have "ln epsilon = ln (inverse ((2::real) ^ 126))"
    unfolding epsilon_def by (simp only: inverse_eq_divide)
  also have "\<dots> = - ln ((2::real) ^ 126)" by (rule ln_inverse)
  also have "ln ((2::real) ^ 126) = real 126 * ln 2" by (rule ln_realpow)
  finally have "ln epsilon = - (126 * ln (2::real))" by simp
  moreover have "126 * ln (2::real) < 126" using ln_2_less_1 by simp
  ultimately show ?thesis by simp
qed

lemma ln_epsilon_neg: "ln epsilon < 0"
  using epsilon_pos epsilon_less_one by simp

lemma argmax_unique:
  assumes j: "j < length xs" and u: "\<And>k. k < length xs \<Longrightarrow> k \<noteq> j \<Longrightarrow> xs ! k < xs ! j"
  shows "argmax xs = j"
proof (rule ccontr)
  assume ne: "argmax xs \<noteq> j"
  have nonempty: "xs \<noteq> []" using j by auto
  have "xs ! argmax xs < xs ! j" using u[OF argmax_less[OF nonempty] ne] .
  moreover have "xs ! j \<le> Max (set xs)" using j by simp
  ultimately show False using argmax_nth[OF nonempty] by simp
qed

lemma fp_ok: "forced_path_call q cell s eh f p \<Longrightarrow> call_ok q cell s eh (Some f)"
  by (simp add: forced_path_call_def)

lemma fp_len: "forced_path_call q cell s eh f p \<Longrightarrow> 2 \<le> length s \<and> length p = length s"
  by (simp add: forced_path_call_def)

lemma fp_range: "forced_path_call q cell s eh f p \<Longrightarrow> i < length s \<Longrightarrow> p ! i < q"
  by (simp add: forced_path_call_def)

lemma fp_log_mask:
  assumes "forced_path_call q cell s eh f p" "1 \<le> i" "i < length s" "j' < q" "j < q"
  shows "log_mask (mask_at (Some f) i (seq_lens_of s) cell) j' j =
           (if j' = p ! (i - 1) \<and> j = p ! i then 0 else - 1000)"
  using assms
  by (simp add: forced_path_call_def forced_mask_def log_mask_def mask_at_def safe_log_zero safe_log_one)

lemma fp_A_le: "forced_path_call q cell s eh f p \<Longrightarrow> j' < q \<Longrightarrow> j < q \<Longrightarrow> log_A_dense cell ! j' ! j \<le> 0"
  by (simp add: forced_path_call_def)

lemma fp_A_path: "forced_path_call q cell s eh f p \<Longrightarrow> 1 \<le> i \<Longrightarrow> i < length s \<Longrightarrow>
    ln epsilon \<le> log_A_dense cell ! (p ! (i - 1)) ! (p ! i)"
  by (simp add: forced_path_call_def)

lemma fp_em_le: "forced_path_call q cell s eh f p \<Longrightarrow> i < length s \<Longrightarrow> j < q \<Longrightarrow>
    safe_log (emission_probs cell s eh ! i ! j) \<le> 0"
  by (simp add: forced_path_call_def safe_log_le_zero)

lemma fp_em_path: "forced_path_call q cell s eh f p \<Longrightarrow> i < length s \<Longrightarrow>
    ln epsilon \<le> safe_log (emission_probs cell s eh ! i ! (p ! i))"
  by (simp add: forced_path_call_def safe_log_ge_ln_epsilon)

lemma fp_init_le: "forced_path_call q cell s eh f p \<Longrightarrow> j < q \<Longrightarrow> safe_log (init_dist cell ! j) \<le> 0"
  by (simp add: forced_path_call_def safe_log_le_zero)

lemma fp_init_path: "forced_path_call q cell s eh f p \<Longrightarrow> ln epsilon \<le> safe_log (init_dist cell ! (p ! 0))"
  by (simp add: forced_path_call_def safe_log_ge_ln_epsilon)

lemma Max_image_le:
  fixes F :: "nat \<Rightarrow> real"
  assumes "0 < q" "\<And>j. j < q \<Longrightarrow> F j \<le> c"
  shows "Max (F ` {..<q}) \<le> c"
  using assms by (subst Max_le_iff) auto

lemma Max_image_ge:
  fixes F :: "nat \<Rightarrow> real"
  assumes "j < q"
  shows "F j \<le> Max (F ` {..<q})"
  using assms by (intro Max_ge) auto

text \<open>The designated state gains at most two clamped logarithms per step.\<close>

lemma forced_step_path:
  assumes fp: "forced_path_call q cell s eh f p"
    and g: "viterbi_dyn_prog s cell eh (Some f) = Some gamma"
    and i: "1 \<le> i" "i < length s"
  shows "gamma ! (i - 1) ! (p ! (i - 1)) + 2 * ln epsilon \<le> gamma ! i ! (p ! i)"
proof -
  let ?F = "\<lambda>j'. log_A_dense cell ! j' ! (p ! i) + gamma ! (i - 1) ! j'
              + log_mask (mask_at (Some f) i (seq_lens_of s) cell) j' (p ! i)"
  have pi: "p ! i < q" using fp_range[OF fp i(2)] .
  have pi1: "p ! (i - 1) < q" using fp_range[OF fp, of "i - 1"] i by simp
  have eq: "gamma ! i ! (p ! i) = Max (?F ` {..<q}) + safe_log (emission_probs cell s eh ! i ! (p ! i))"
    using gamma_step[OF fp_ok[OF fp] g _ i(2) pi] i by simp
  have "?F (p ! (i - 1)) = log_A_dense cell ! (p ! (i - 1)) ! (p ! i) + gamma ! (i - 1) ! (p ! (i - 1))"
    using fp_log_mask[OF fp i pi1 pi] by simp
  then have "ln epsilon + gamma ! (i - 1) ! (p ! (i - 1)) \<le> ?F (p ! (i - 1))"
    using fp_A_path[OF fp i] by simp
  also have "?F (p ! (i - 1)) \<le> Max (?F ` {..<q})" using pi1 by (rule Max_image_ge)
  finally show ?thesis using eq fp_em_path[OF fp i(2)] by simp
qed

text \<open>Every other state pays the sentinel for its forbidden transition.\<close>

lemma forced_step_other:
  assumes fp: "forced_path_call q cell s eh f p"
    and g: "viterbi_dyn_prog s cell eh (Some f) = Some gamma"
    and i: "1 \<le> i" "i < length s" and j: "j < q" "j \<noteq> p ! i"
    and B: "\<And>j'. j' < q \<Longrightarrow> gamma ! (i - 1) ! j' \<le> B"
  shows "gamma ! i ! j \<le> B - 1000"
proof -
  let ?F = "\<lambda>j'. log_A_dense cell ! j' ! j + gamma ! (i - 1) ! j'
              + log_mask (mask_at (Some f) i (seq_lens_of s) cell) j' j"
  have eq: "gamma ! i ! j = Max (?F ` {..<q}) + safe_log (emission_probs cell s eh ! i ! j)"
    using gamma_step[OF fp_ok[OF fp] g _ i(2) j(1)] i by simp
  have "\<And>j'. j' < q \<Longrightarrow> ?F j' \<le> B - 1000"
  proof -
    fix j' assume j': "j' < q"
    have "log_mask (mask_at (Some f) i (seq_lens_of s) cell) j' j = - 1000"
      using fp_log_mask[OF fp i j' j(1)] j(2) by simp
    then show "?F j' \<le> B - 1000" using fp_A_le[OF fp j' j(1)] B[OF j'] by simp
  qed
  then have "Max (?F ` {..<q}) \<le> B - 1000"
    using call_ok_pos[OF fp_ok[OF fp]] by (intro Max_image_le) simp_all
  then show ?thesis using eq fp_em_le[OF fp i(2) j(1)] by simp
qed

text \<open>No state is ever more than 252 ahead of the designated state.\<close>

lemma forced_spread:
  assumes fp: "forced_path_call q cell s eh f p"
    and g: "viterbi_dyn_prog s cell eh (Some f) = Some gamma"
  shows "i < length s \<Longrightarrow> j < q \<Longrightarrow> gamma ! i ! j \<le> gamma ! i ! (p ! i) + 252"
proof (induction i arbitrary: j)
  case 0
  have p0: "p ! 0 < q" using fp_range[OF fp 0(1)] .
  have "gamma ! 0 ! j \<le> 0"
    using gamma_zero[OF fp_ok[OF fp] g 0(2)] fp_init_le[OF fp 0(2)] fp_em_le[OF fp 0(1) 0(2)] by simp
  moreover have "2 * ln epsilon \<le> gamma ! 0 ! (p ! 0)"
    using gamma_zero[OF fp_ok[OF fp] g p0] fp_init_path[OF fp] fp_em_path[OF fp 0(1)] by simp
  ultimately show ?case using ln_epsilon_bound by simp
next
  case (Suc i)
  show ?case
  proof (cases "j = p ! Suc i")
    case True
    then show ?thesis by simp
  next
    case False
    have il: "i < length s" using Suc.prems by simp
    have B: "\<And>j'. j' < q \<Longrightarrow> gamma ! (Suc i - 1) ! j' \<le> gamma ! i ! (p ! i) + 252"
      using Suc.IH[OF il] by simp
    have "gamma ! Suc i ! j \<le> gamma ! i ! (p ! i) + 252 - 1000"
      by (rule forced_step_other[OF fp g _ Suc.prems(1) Suc.prems(2) False B]) simp
    moreover have "gamma ! i ! (p ! i) + 2 * ln epsilon \<le> gamma ! Suc i ! (p ! Suc i)"
      using forced_step_path[OF fp g _ Suc.prems(1)] by simp
    ultimately show ?thesis using ln_epsilon_bound by simp
  qed
qed

lemma forced_strict:
  assumes fp: "forced_path_call q cell s eh f p"
    and g: "viterbi_dyn_prog s cell eh (Some f) = Some gamma"
    and i: "1 \<le> i" "i < length s" and j: "j < q" "j \<noteq> p ! i"
  shows "gamma ! i ! j < gamma ! i ! (p ! i)"
proof -
  have il: "i - 1 < length s" using i by simp
  have B: "\<And>j'. j' < q \<Longrightarrow> gamma ! (i - 1) ! j' \<le> gamma ! (i - 1) ! (p ! (i - 1)) + 252"
    by (rule forced_spread[OF fp g il])
  have "gamma ! i ! j \<le> gamma ! (i - 1) ! (p ! (i - 1)) + 252 - 1000"
    by (rule forced_step_other[OF fp g i j B])
  moreover have "gamma ! (i - 1) ! (p ! (i - 1)) + 2 * ln epsilon \<le> gamma ! i ! (p ! i)"
    by (rule forced_step_path[OF fp g i])
  ultimately show ?thesis using ln_epsilon_bound by simp
qed

lemma forced_last:
  assumes fp: "forced_path_call q cell s eh f p"
    and g: "viterbi_dyn_prog s cell eh (Some f) = Some gamma"
  shows "argmax (gamma ! (length s - 1)) = p ! (length s - 1)"
proof (rule argmax_unique)
  let ?i = "length s - 1"
  have "2 \<le> length s" using fp_len[OF fp] by simp
  then have i: "1 \<le> ?i" "?i < length s" by linarith+
  have len: "length (gamma ! ?i) = q" by (rule gamma_row_length[OF fp_ok[OF fp] g i(2)])
  show "p ! ?i < length (gamma ! ?i)" using fp_range[OF fp i(2)] len by simp
  fix k assume "k < length (gamma ! ?i)" "k \<noteq> p ! ?i"
  then show "gamma ! ?i ! k < gamma ! ?i ! (p ! ?i)"
    using forced_strict[OF fp g i] len by simp
qed

lemma forced_predecessor:
  assumes fp: "forced_path_call q cell s eh f p"
    and g: "viterbi_dyn_prog s cell eh (Some f) = Some gamma"
    and i: "Suc i < length s"
  shows "argmax (pred_scores cell (gamma ! i) (mask_at (Some f) (Suc i) (seq_lens_of s) cell) (p ! Suc i)) = p ! i"
proof (rule argmax_unique)
  let ?m = "mask_at (Some f) (Suc i) (seq_lens_of s) cell"
  let ?ps = "pred_scores cell (gamma ! i) ?m (p ! Suc i)"
  have il: "i < length s" using i by simp
  have len: "length (gamma ! i) = q" by (rule gamma_row_length[OF fp_ok[OF fp] g il])
  have pi: "p ! i < q" by (rule fp_range[OF fp il])
  have ps: "p ! Suc i < q" by (rule fp_range[OF fp i])
  show "p ! i < length ?ps" using pi len by (simp add: pred_scores_length)
  have own: "?ps ! (p ! i) = log_A_dense cell ! (p ! i) ! (p ! Suc i) + gamma ! i ! (p ! i)"
    using pi len fp_log_mask[OF fp _ i pi ps] by (simp add: pred_scores_nth)
  have A: "ln epsilon \<le> log_A_dense cell ! (p ! i) ! (p ! Suc i)"
    using fp_A_path[OF fp _ i] by simp
  fix k assume k: "k < length ?ps" "k \<noteq> p ! i"
  then have kq: "k < q" using len by (simp add: pred_scores_length)
  have "?ps ! k = log_A_dense cell ! k ! (p ! Suc i) - 1000 + gamma ! i ! k"
    using kq len k(2) fp_log_mask[OF fp _ i kq ps] by (simp add: pred_scores_nth)
  moreover have "gamma ! i ! k \<le> gamma ! i ! (p ! i) + 252"
    by (rule forced_spread[OF fp g il kq])
  ultimately show "?ps ! k < ?ps ! (p ! i)"
    using fp_A_le[OF fp kq ps] A own ln_epsilon_bound by simp
qed

lemma forced_decoded:
  assumes fp: "forced_path_call q cell s eh f p"
    and g: "viterbi_dyn_prog s cell eh (Some f) = Some gamma"
  shows "decoded_states cell gamma (seq_lens_of s) (Some f) = p"
proof -
  let ?ds = "decoded_states cell gamma (seq_lens_of s) (Some f)"
  note ok = fp_ok[OF fp]
  have gne: "gamma \<noteq> []" by (rule last_gamma(2)[OF ok g])
  have len: "length gamma = length s" by (rule gamma_length[OF ok g])
  have dl: "length ?ds = length s" using ds_length[OF gne] len by simp
  have "k < length s \<Longrightarrow> ?ds ! (length s - 1 - k) = p ! (length s - 1 - k)" for k
  proof (induction k)
    case 0
    show ?case
      using ds_last[OF gne, of cell "seq_lens_of s" "Some f"] last_gamma(1)[OF ok g] len
        forced_last[OF fp g] by simp
  next
    case (Suc k)
    let ?i = "length s - 1 - Suc k"
    have si: "Suc ?i = length s - 1 - k" using Suc.prems by simp
    have il: "Suc ?i < length s" using Suc.prems by simp
    have ih: "?ds ! (length s - 1 - k) = p ! (length s - 1 - k)" using Suc.IH Suc.prems by simp
    have nx: "?ds ! Suc ?i = p ! Suc ?i" using ih unfolding si .
    have "?ds ! ?i = argmax (pred_scores cell (gamma ! ?i) (mask_at (Some f) (Suc ?i) (seq_lens_of s) cell) (?ds ! Suc ?i))"
      by (rule ds_choice(2)[OF ok g il])
    then show ?case using forced_predecessor[OF fp g il] nx by simp
  qed
  then have down: "\<And>k. k < length s \<Longrightarrow> ?ds ! (length s - 1 - k) = p ! (length s - 1 - k)" .
  have "\<And>i. i < length s \<Longrightarrow> ?ds ! i = p ! i"
  proof -
    fix i assume i: "i < length s"
    have "length s - 1 - (length s - 1 - i) = i" using i by simp
    moreover have "length s - 1 - i < length s" using i by simp
    ultimately show "?ds ! i = p ! i" using down[of "length s - 1 - i"] by simp
  qed
  then show ?thesis using dl fp_len[OF fp] by (intro nth_equalityI) simp_all
qed

text \<open>
  C6, as the code has it. A forbidden transition costs the finite sentinel \<open>-1000\<close>,
  and a mask constrains transitions only. If there are at least two positions, the mask
  of every position \<open>i \<ge> 1\<close> is 1 at \<open>(p[i-1], p[i])\<close> and 0 elsewhere, no
  transition score is above 0 and no initial or emission probability above 1, and along
  the designated path \<open>p\<close> the initial and emission probabilities are not zero and
  the transition scores are at least \<open>ln epsilon\<close>, then \<open>viterbi\<close> returns exactly
  \<open>p\<close> (as \<open>int16\<close>).
\<close>

theorem viterbi_follows_forced_path:
  assumes "call_ok q cell (to_vectors inp cell) end_hints (Some f)"
    and "2 \<le> length (to_vectors inp cell)"
    and "length p = length (to_vectors inp cell)"
    and "\<forall>i<length p. p ! i < q"
    and "\<forall>i. 1 \<le> i \<and> i < length p \<longrightarrow>
           (\<forall>j'<q. \<forall>j<q. f i (seq_lens_of (to_vectors inp cell)) cell ! j' ! j =
                (if j' = p ! (i - 1) \<and> j = p ! i then 1 else 0))"
    and "\<forall>j'<q. \<forall>j<q. log_A_dense cell ! j' ! j \<le> 0"
    and "\<forall>j<q. init_dist cell ! j \<le> 1"
    and "\<forall>i<length p. \<forall>j<q. emission_probs cell (to_vectors inp cell) end_hints ! i ! j \<le> 1"
    and "init_dist cell ! (p ! 0) \<noteq> 0"
    and "\<forall>i<length p. emission_probs cell (to_vectors inp cell) end_hints ! i ! (p ! i) \<noteq> 0"
    and "\<forall>i. 1 \<le> i \<and> i < length p \<longrightarrow> ln epsilon \<le> log_A_dense cell ! (p ! (i - 1)) ! (p ! i)"
  shows "viterbi inp cell end_hints (Some f) = Some (map word_of_nat p)"
proof -
  let ?s = "to_vectors inp cell"
  have fp: "forced_path_call q cell ?s end_hints f p"
    using assms by (simp add: forced_path_call_def forced_mask_def)
  have "?s \<noteq> []" using assms(2) by auto
  then obtain gamma where g: "viterbi_dyn_prog ?s cell end_hints (Some f) = Some gamma"
    by (simp add: viterbi_dyn_prog_Some)
  have gne: "gamma \<noteq> []" by (rule last_gamma(2)[OF fp_ok[OF fp] g])
  show ?thesis
    using viterbi_unfold[OF g gne] forced_decoded[OF fp g] by simp
qed

lemma all_less_two: "(\<forall>i<2. P i) \<longleftrightarrow> P (0::nat) \<and> P 1"
  by (auto simp: less_2_cases_iff)

lemma one_upto_two: "Suc 0 \<le> i \<and> i < Suc (Suc 0) \<longleftrightarrow> i = Suc 0"
  by auto

theorem viterbi_follows_forced_path_witness:
  "call_ok 2 example_cell (to_vectors (Vectors [[1, 0], [1, 0]]) example_cell) None (Some example_mask) \<and>
   forced_mask 2 [0, 0] 1 (example_mask 1 (seq_lens_of [[1, 0], [1, 0]]) example_cell) \<and>
   viterbi (Vectors [[1, 0], [1, 0]]) example_cell None (Some example_mask) = Some (map word_of_nat [0, 0])"
proof -
  let ?inp = "Vectors [[1, 0], [1, 0]]"
  have ok: "call_ok 2 example_cell (to_vectors ?inp example_cell) None (Some example_mask)"
    by (simp add: call_ok_def cell_ok_def is_mat_def mask_ok_def mask_at_def example_cell_def
        example_mask_def transpose_mat_def upt_rec)
  have fm: "forced_mask 2 [0, 0] 1 (example_mask 1 (seq_lens_of [[1, 0], [1, 0]]) example_cell)"
    by (simp add: forced_mask_def example_mask_def all_less_two All_less_Suc)
  have h2: "2 \<le> length (to_vectors ?inp example_cell)" by simp
  have h3: "length [0, 0 :: nat] = length (to_vectors ?inp example_cell)" by simp
  have h4: "\<forall>i<length [0, 0 :: nat]. [0, 0] ! i < (2::nat)"
    by (simp add: all_less_two All_less_Suc)
  have h5: "\<forall>i. 1 \<le> i \<and> i < length [0, 0 :: nat] \<longrightarrow>
           (\<forall>j'<2. \<forall>j<2. example_mask i (seq_lens_of (to_vectors ?inp example_cell)) example_cell ! j' ! j =
                (if j' = [0, 0] ! (i - 1) \<and> j = [0, 0] ! i then 1 else 0))"
    by (simp add: example_mask_def all_less_two All_less_Suc one_upto_two)
  have h6: "\<forall>j'<2. \<forall>j<2. log_A_dense example_cell ! j' ! j \<le> 0"
    by (simp add: example_cell_def all_less_two All_less_Suc)
  have h7: "\<forall>j<2. init_dist example_cell ! j \<le> 1"
    by (simp add: example_cell_def all_less_two All_less_Suc)
  have h8: "\<forall>i<length [0, 0 :: nat]. \<forall>j<2.
              emission_probs example_cell (to_vectors ?inp example_cell) None ! i ! j \<le> 1"
    by (simp add: example_cell_def all_less_two All_less_Suc)
  have h9: "init_dist example_cell ! ([0, 0] ! 0) \<noteq> 0"
    by (simp add: example_cell_def)
  have h10: "\<forall>i<length [0, 0 :: nat].
              emission_probs example_cell (to_vectors ?inp example_cell) None ! i ! ([0, 0] ! i) \<noteq> 0"
    by (simp add: example_cell_def all_less_two All_less_Suc)
  have h11: "\<forall>i. 1 \<le> i \<and> i < length [0, 0 :: nat] \<longrightarrow>
              ln epsilon \<le> log_A_dense example_cell ! ([0, 0] ! (i - 1)) ! ([0, 0] ! i)"
    using ln_epsilon_neg by (simp add: example_cell_def one_upto_two)
  show ?thesis
    using ok fm viterbi_follows_forced_path[OF ok h2 h3 h4 h5 h6 h7 h8 h9 h10 h11] by simp
qed

text \<open>
  C6 as stated fails. Under \<open>example_cell\<close> and the input \<open>[[1, 0], [1, 0]]\<close>, the
  mask allows only the transition from state 1 to state 1, so the designated path is
  \<open>[1, 1]\<close>; state 1 has initial and emission probability 0 there, the path
  \<open>[0, 0]\<close> pays the sentinel once and wins. With a single position no mask is ever
  read, and the path is the best first state.
\<close>

theorem forced_path_counterexample:
  "forced_mask 2 [1, 1] 1 (example_mask_end 1 (seq_lens_of [[1, 0], [1, 0]]) example_cell) \<and>
   viterbi (Vectors [[1, 0], [1, 0]]) example_cell None (Some example_mask_end) = Some [0, 0] \<and>
   ([0, 0] :: 16 word list) \<noteq> map word_of_nat [1, 1] \<and>
   viterbi (Vectors [[1, 0]]) example_cell None (Some example_mask_end) = Some [0] \<and>
   ([0] :: 16 word list) \<noteq> map word_of_nat [1]"
proof -
  have fm: "forced_mask 2 [1, 1] 1 (example_mask_end 1 (seq_lens_of [[1, 0], [1, 0]]) example_cell)"
    by (simp add: forced_mask_def example_mask_end_def all_less_two All_less_Suc)
  have v2: "viterbi (Vectors [[1, 0], [1, 0]]) example_cell None (Some example_mask_end) = Some [0, 0]"
    by (simp add: viterbi_def viterbi_dyn_prog_def viterbi_backtracking_def decoded_states_def
      viterbi_step_def viterbi_backtracking_step_def reduce_max_rows_def transpose_mat_def
      argmax_def vec_add_def mat_add_def mask_at_def seq_lens_of_def example_cell_def
      example_mask_end_def safe_log_zero safe_log_one Let_def upt_rec)
  have v1: "viterbi (Vectors [[1, 0]]) example_cell None (Some example_mask_end) = Some [0]"
    by (simp add: viterbi_def viterbi_dyn_prog_def viterbi_backtracking_def decoded_states_def
      argmax_def vec_add_def seq_lens_of_def example_cell_def
      safe_log_zero safe_log_one Let_def)
  show ?thesis using fm v2 v1 by simp
qed

end
